theory Spec2Isabelle
  imports
    Main
    "HOL-Library.Sublist"
    "HOL-Library.Char_ord"
    "HOL-Library.List_Lexorder"
    "HOL-Library.Product_Lexorder"
begin

section \<open>The asset dashboard of mhbase.py\<close>

text \<open>
  The program is one script, \<^verbatim>\<open>mhbase.py\<close>: it loads the table \<^verbatim>\<open>asset_data\<close>
  from PostgreSQL into a pandas data frame, filters it by the two multiselects of the
  sidebar, and computes totals, two grouped sums and a pivot table from the filtered
  frame, which it also offers as a CSV download.

  The script's own text is a chain of calls into pandas, psycopg2 and Streamlit. Each of
  those calls is embedded below as a HOL function with the behaviour the library
  documents for the arguments the script passes, and each name of the script
  (\<^verbatim>\<open>filtered_data\<close>, \<^verbatim>\<open>total_substation\<close>, \<^verbatim>\<open>region_data\<close>, \<^verbatim>\<open>heatmap_data\<close>,
  \<^verbatim>\<open>load_data\<close>, ...) is the composition of them that the script writes.
\<close>

subsection \<open>Data model\<close>

text \<open>
  One row of \<^verbatim>\<open>SELECT * FROM asset_data\<close>, restricted to the seven columns the script
  reads. A cell of a data frame may be missing (SQL \<^verbatim>\<open>NULL\<close>, pandas \<^verbatim>\<open>None\<close>/\<^verbatim>\<open>NaN\<close>):
  that is \<open>None\<close>. A count is a whole number. The rows say what the cells hold; how
  pandas stores a count column, and so how it adds and prints it, is the type of the
  column, which is modelled apart from the rows (see the column types below).
\<close>

record asset_record =
  region_name :: "string option"
  z_name :: "string option"
  c_name :: "string option"
  substation :: "int option"
  dtc :: "int option"
  ht_pole :: "int option"
  lt_pole :: "int option"

type_synonym asset_table = "asset_record list"

subsection \<open>Filter (lines 76 to 90)\<close>

text \<open>
  \<^verbatim>\<open>Series.unique()\<close>: the distinct values of a column in order of first appearance
  (a hash table of the values seen so far); a missing value is one of the values.
\<close>

fun unique_from :: "'a list \<Rightarrow> 'a list \<Rightarrow> 'a list" where
  "unique_from seen [] = []"
| "unique_from seen (x # xs) =
     (if x \<in> set seen then unique_from seen xs else x # unique_from (x # seen) xs)"

definition unique :: "'a list \<Rightarrow> 'a list" where
  "unique column = unique_from [] column"

text \<open>
  \<^verbatim>\<open>Series.isin(values)\<close>: one boolean per row, true when the cell is one of \<open>values\<close>.
  \<^verbatim>\<open>a & b\<close> on two boolean series of the same index is the conjunction row by row, and
  \<^verbatim>\<open>data[mask]\<close> keeps the rows whose mask is true, in their order.
\<close>

definition isin :: "'a list \<Rightarrow> 'a list \<Rightarrow> bool list" where
  "isin column values = map (\<lambda>x. x \<in> set values) column"

definition series_and :: "bool list \<Rightarrow> bool list \<Rightarrow> bool list" where
  "series_and a b = map (\<lambda>(x, y). x \<and> y) (zip a b)"

definition boolean_index :: "'r list \<Rightarrow> bool list \<Rightarrow> 'r list" where
  "boolean_index df keep = map fst (filter snd (zip df keep))"

text \<open>
  Line 90:
  \<^verbatim>\<open>filtered_data = data[data["region_name"].isin(selected_region) & data["z_name"].isin(selected_zone)]\<close>
\<close>

definition filtered_data ::
  "asset_table \<Rightarrow> string option list \<Rightarrow> string option list \<Rightarrow> asset_table" where
  "filtered_data data selected_region selected_zone =
     boolean_index data
       (series_and (isin (map region_name data) selected_region)
                   (isin (map z_name data) selected_zone))"

text \<open>
  Lines 76 to 87: the options of both multiselects, which are also their defaults, are
  \<^verbatim>\<open>data["region_name"].unique()\<close> and \<^verbatim>\<open>data["z_name"].unique()\<close>.
\<close>

definition region_options :: "asset_table \<Rightarrow> string option list" where
  "region_options data = unique (map region_name data)"

definition zone_options :: "asset_table \<Rightarrow> string option list" where
  "zone_options data = unique (map z_name data)"

subsection \<open>Column types (line 58)\<close>

text \<open>
  \<^verbatim>\<open>pd.read_sql\<close> gives a count column of an integer type of the database the type
  \<^verbatim>\<open>int64\<close> if the query returned no \<^verbatim>\<open>NULL\<close> in it, and the type \<^verbatim>\<open>float64\<close> otherwise (an
  \<^verbatim>\<open>int64\<close> column cannot hold a missing value). The types are fixed when the table is
  loaded; \<^verbatim>\<open>data[mask]\<close> on line 90 keeps them, so the filtered frame has the types of
  the loaded table whatever rows it keeps. A frame is therefore its rows together with
  the types of its four count columns, here one flag for each: is the column
  \<^verbatim>\<open>float64\<close>?
\<close>

record count_dtypes =
  float_substation :: bool
  float_dtc :: bool
  float_ht_pole :: bool
  float_lt_pole :: bool

definition has_na :: "(asset_record \<Rightarrow> int option) \<Rightarrow> asset_table \<Rightarrow> bool" where
  "has_na col df = list_ex (\<lambda>row. col row = None) df"

definition dtypes_of :: "asset_table \<Rightarrow> count_dtypes" where
  "dtypes_of data =
     \<lparr>float_substation = has_na substation data,
      float_dtc = has_na dtc data,
      float_ht_pole = has_na ht_pole data,
      float_lt_pole = has_na lt_pole data\<rparr>"

subsection \<open>Totals (lines 93 to 96)\<close>

text \<open>
  \<^verbatim>\<open>Series.sum()\<close> with its defaults (\<^verbatim>\<open>skipna=True\<close>, \<^verbatim>\<open>min_count=0\<close>): the missing
  cells are left out and the others are added up, starting from zero, so that a column
  without any value sums to zero. The additions are those of the column's type.

  In an \<^verbatim>\<open>int64\<close> column every addition wraps around silently: its result is the sum
  modulo \<open>2\<^sup>6\<^sup>4\<close>, read as a signed number.

  In a \<^verbatim>\<open>float64\<close> column an addition of two whole numbers is exact if its result is at
  most \<open>2\<^sup>5\<^sup>3\<close> in magnitude, and is rounded otherwise. If the magnitudes of the cells
  add up to at most \<open>2\<^sup>5\<^sup>3\<close>, every intermediate result of every order of adding them
  is exact, and the result is the sum. Otherwise the result depends on the order in
  which the library adds (pairwise in \<^verbatim>\<open>Series.sum\<close>, with a running compensation in
  \<^verbatim>\<open>groupby\<close>) and on the rounding of each step: the model does not determine it and
  says \<open>Rounded\<close>.
\<close>

datatype total = Value int | Rounded

definition wrap64 :: "int \<Rightarrow> int" where
  "wrap64 n = (n + 2 ^ 63) mod 2 ^ 64 - 2 ^ 63"

fun dropna :: "'a option list \<Rightarrow> 'a list" where
  "dropna [] = []"
| "dropna (None # xs) = dropna xs"
| "dropna (Some x # xs) = x # dropna xs"

definition series_sum :: "bool \<Rightarrow> int option list \<Rightarrow> total" where
  "series_sum floating column =
     (if floating
      then (if (\<Sum>x\<leftarrow>dropna column. \<bar>x\<bar>) \<le> 2 ^ 53
            then Value (fold (\<lambda>x acc. acc + x) (dropna column) 0)
            else Rounded)
      else Value (fold (\<lambda>x acc. wrap64 (acc + x)) (dropna column) 0))"

text \<open>
  The four totals are computed from the filtered frame: from its rows and from the
  types of its columns, which are those of the loaded table.
\<close>

definition total_substation :: "count_dtypes \<Rightarrow> asset_table \<Rightarrow> total" where
  "total_substation dtypes filtered =
     series_sum (float_substation dtypes) (map substation filtered)"

definition total_dtc :: "count_dtypes \<Rightarrow> asset_table \<Rightarrow> total" where
  "total_dtc dtypes filtered = series_sum (float_dtc dtypes) (map dtc filtered)"

definition total_ht_pole :: "count_dtypes \<Rightarrow> asset_table \<Rightarrow> total" where
  "total_ht_pole dtypes filtered = series_sum (float_ht_pole dtypes) (map ht_pole filtered)"

definition total_lt_pole :: "count_dtypes \<Rightarrow> asset_table \<Rightarrow> total" where
  "total_lt_pole dtypes filtered = series_sum (float_lt_pole dtypes) (map lt_pole filtered)"

subsection \<open>Grouped sums (lines 107 and 133)\<close>

text \<open>
  \<^verbatim>\<open>groupby(key).sum().reset_index()\<close> with the defaults of \<^verbatim>\<open>groupby\<close>
  (\<^verbatim>\<open>sort=True\<close>, \<^verbatim>\<open>dropna=True\<close>): one row for each distinct value of the key column
  that is not missing, in ascending order of the key, holding the key and the sum of
  each column over the rows of that key. A row whose key is missing belongs to no group.
  Of the summed columns the script reads the four counts, which are the ones modelled;
  each is added in the type of its column.
\<close>

record asset_sums =
  sum_substation :: total
  sum_dtc :: total
  sum_ht_pole :: total
  sum_lt_pole :: total

definition agg_sum :: "count_dtypes \<Rightarrow> asset_table \<Rightarrow> asset_sums" where
  "agg_sum dtypes rows =
     \<lparr>sum_substation = series_sum (float_substation dtypes) (map substation rows),
      sum_dtc = series_sum (float_dtc dtypes) (map dtc rows),
      sum_ht_pole = series_sum (float_ht_pole dtypes) (map ht_pole rows),
      sum_lt_pole = series_sum (float_lt_pole dtypes) (map lt_pole rows)\<rparr>"

definition group_keys :: "('k::linorder) option list \<Rightarrow> 'k list" where
  "group_keys column = sort (remdups (dropna column))"

definition groupby_sum ::
  "count_dtypes \<Rightarrow> (asset_record \<Rightarrow> string option) \<Rightarrow> asset_table \<Rightarrow>
     (string \<times> asset_sums) list" where
  "groupby_sum dtypes key df =
     map (\<lambda>k. (k, agg_sum dtypes (filter (\<lambda>row. key row = Some k) df)))
         (group_keys (map key df))"

definition region_data :: "count_dtypes \<Rightarrow> asset_table \<Rightarrow> (string \<times> asset_sums) list" where
  "region_data dtypes filtered = groupby_sum dtypes region_name filtered"

definition zone_data :: "count_dtypes \<Rightarrow> asset_table \<Rightarrow> (string \<times> asset_sums) list" where
  "zone_data dtypes filtered = groupby_sum dtypes z_name filtered"

subsection \<open>Pivot table (lines 144 to 150)\<close>

text \<open>
  \<^verbatim>\<open>pivot_table(values=[...], index="region_name", columns="z_name", aggfunc="sum", fill_value=0)\<close>
  groups the frame by both keys (again \<^verbatim>\<open>sort=True\<close>, \<^verbatim>\<open>dropna=True\<close>: a row in which
  either key is missing belongs to no group) and sums the four columns in each group.
  A sum is never missing, so the removal of the groups whose sums are all missing
  removes none. The zone level of the grouped index is then unstacked into the columns
  with \<^verbatim>\<open>fill_value\<close>: the result has one row for each region of a group, one column
  for each zone of a group, both in ascending order, and \<^verbatim>\<open>fill_value\<close> where the
  region and the zone form no group.
\<close>

definition key_pair :: "asset_record \<Rightarrow> (string \<times> string) option" where
  "key_pair row =
     (case region_name row of
        None \<Rightarrow> None
      | Some r \<Rightarrow> (case z_name row of None \<Rightarrow> None | Some z \<Rightarrow> Some (r, z)))"

definition pivot_agged ::
  "count_dtypes \<Rightarrow> asset_table \<Rightarrow> ((string \<times> string) \<times> asset_sums) list" where
  "pivot_agged dtypes df =
     map (\<lambda>p. (p, agg_sum dtypes (filter (\<lambda>row. key_pair row = Some p) df)))
         (group_keys (map key_pair df))"

definition unstack ::
  "asset_sums \<Rightarrow> ((string \<times> string) \<times> asset_sums) list \<Rightarrow>
     (string \<times> (string \<times> asset_sums) list) list" where
  "unstack fill_value agged =
     (let index = sort (remdups (map (\<lambda>g. fst (fst g)) agged));
          columns = sort (remdups (map (\<lambda>g. snd (fst g)) agged))
      in map (\<lambda>r. (r, map (\<lambda>z. (z, case map_of agged (r, z) of
                                         Some s \<Rightarrow> s
                                       | None \<Rightarrow> fill_value)) columns)) index)"

definition zero_sums :: asset_sums where
  "zero_sums =
     \<lparr>sum_substation = Value 0, sum_dtc = Value 0, sum_ht_pole = Value 0, sum_lt_pole = Value 0\<rparr>"

definition heatmap_data ::
  "count_dtypes \<Rightarrow> asset_table \<Rightarrow> (string \<times> (string \<times> asset_sums) list) list" where
  "heatmap_data dtypes filtered = unstack zero_sums (pivot_agged dtypes filtered)"

text \<open>The cells of a pivot table, each with its region and zone, row by row.\<close>

definition pivot_cells ::
  "(string \<times> (string \<times> asset_sums) list) list \<Rightarrow> ((string \<times> string) \<times> asset_sums) list" where
  "pivot_cells table = concat (map (\<lambda>(r, cells). map (\<lambda>(z, s). ((r, z), s)) cells) table)"

text \<open>The row labels and the column labels of the pivot table of a frame.\<close>

definition pivot_index :: "asset_table \<Rightarrow> string list" where
  "pivot_index df = sort (remdups (map fst (group_keys (map key_pair df))))"

definition pivot_columns :: "asset_table \<Rightarrow> string list" where
  "pivot_columns df = sort (remdups (map snd (group_keys (map key_pair df))))"

subsection \<open>Sums as the specification states them\<close>

text \<open>The value a missing count has in a sum, and a frame with its missing counts set to zero.\<close>

definition count_or_zero :: "int option \<Rightarrow> int" where
  "count_or_zero c = (case c of None \<Rightarrow> 0 | Some n \<Rightarrow> n)"


text \<open>
  The four count columns, for a property that holds of each of them: the cell of a
  column in a row, the type of a column, the sum of a column in a row of sums, and the
  total of a column.
\<close>

datatype count_column = Substation | Dtc | Ht_pole | Lt_pole

fun cell :: "count_column \<Rightarrow> asset_record \<Rightarrow> int option" where
  "cell Substation row = substation row"
| "cell Dtc row = dtc row"
| "cell Ht_pole row = ht_pole row"
| "cell Lt_pole row = lt_pole row"

fun is_float :: "count_dtypes \<Rightarrow> count_column \<Rightarrow> bool" where
  "is_float dtypes Substation = float_substation dtypes"
| "is_float dtypes Dtc = float_dtc dtypes"
| "is_float dtypes Ht_pole = float_ht_pole dtypes"
| "is_float dtypes Lt_pole = float_lt_pole dtypes"

fun sum_of :: "count_column \<Rightarrow> asset_sums \<Rightarrow> total" where
  "sum_of Substation sums = sum_substation sums"
| "sum_of Dtc sums = sum_dtc sums"
| "sum_of Ht_pole sums = sum_ht_pole sums"
| "sum_of Lt_pole sums = sum_lt_pole sums"

fun total_of :: "count_dtypes \<Rightarrow> count_column \<Rightarrow> asset_table \<Rightarrow> total" where
  "total_of dtypes Substation filtered = total_substation dtypes filtered"
| "total_of dtypes Dtc filtered = total_dtc dtypes filtered"
| "total_of dtypes Ht_pole filtered = total_ht_pole dtypes filtered"
| "total_of dtypes Lt_pole filtered = total_lt_pole dtypes filtered"

text \<open>
  The range in which the additions of a column are those of the whole numbers: the
  magnitudes of its counts add up to at most \<open>2\<^sup>6\<^sup>3 - 1\<close> in an \<^verbatim>\<open>int64\<close> column and to at
  most \<open>2\<^sup>5\<^sup>3\<close> in a \<^verbatim>\<open>float64\<close> column.
\<close>

definition magnitude :: "(asset_record \<Rightarrow> int option) \<Rightarrow> asset_table \<Rightarrow> int" where
  "magnitude col rows = (\<Sum>row\<leftarrow>rows. \<bar>count_or_zero (col row)\<bar>)"

definition exact_bound :: "bool \<Rightarrow> int" where
  "exact_bound floating = (if floating then 2 ^ 53 else 2 ^ 63 - 1)"

definition in_range :: "count_dtypes \<Rightarrow> count_column \<Rightarrow> asset_table \<Rightarrow> bool" where
  "in_range dtypes col rows \<longleftrightarrow> magnitude (cell col) rows \<le> exact_bound (is_float dtypes col)"

text \<open>
  The sum of results of the program over groups or cells, as a property states it: the
  sum of the numbers, if every result is a number.
\<close>

fun sum_totals :: "total list \<Rightarrow> total" where
  "sum_totals [] = Value 0"
| "sum_totals (Rounded # ts) = Rounded"
| "sum_totals (Value n # ts) =
     (case sum_totals ts of Value m \<Rightarrow> Value (n + m) | Rounded \<Rightarrow> Rounded)"

subsection \<open>Loading the table (lines 43 to 63)\<close>

text \<open>
  The script acts on the world outside it by opening connections, running queries and
  closing connections, and it keeps the loaded table in the store of \<^verbatim>\<open>st.cache_data\<close>,
  which lives as long as the server process. The database is not part of the script:
  what it answers to one attempt at loading is a parameter. Either the connection is
  refused (\<^verbatim>\<open>psycopg2.connect\<close> raises), or it is made and the query fails
  (\<^verbatim>\<open>pd.read_sql\<close> raises), or the query returns the rows of the table.
\<close>

datatype db_answer = Refused | Query_fails | Rows asset_table

datatype load_error = ConnectionError | QueryError

text \<open>
  A connection is named by the number of connections opened before it. The world records
  how many connections were opened, which of them are open, how many queries were run,
  and the stored value of \<^verbatim>\<open>load_data()\<close>, if there is one.
\<close>

record world =
  opened :: nat
  open_conns :: "nat list"
  queries :: nat
  cache :: "asset_table option"

definition process_start :: world where
  "process_start = \<lparr>opened = 0, open_conns = [], queries = 0, cache = None\<rparr>"

text \<open>Lines 43 to 51, \<^verbatim>\<open>get_db_connection()\<close>.\<close>

definition get_db_connection :: "db_answer \<Rightarrow> world \<Rightarrow> (load_error + nat) \<times> world" where
  "get_db_connection db w =
     (case db of
        Refused \<Rightarrow> (Inl ConnectionError, w)
      | _ \<Rightarrow> (Inr (opened w),
               w\<lparr>opened := Suc (opened w), open_conns := opened w # open_conns w\<rparr>))"

text \<open>\<^verbatim>\<open>pd.read_sql(query, conn)\<close> and \<^verbatim>\<open>conn.close()\<close>.\<close>

definition read_sql :: "db_answer \<Rightarrow> nat \<Rightarrow> world \<Rightarrow> (load_error + asset_table) \<times> world" where
  "read_sql db conn w =
     (case db of
        Rows table \<Rightarrow> (Inr table, w\<lparr>queries := Suc (queries w)\<rparr>)
      | _ \<Rightarrow> (Inl QueryError, w\<lparr>queries := Suc (queries w)\<rparr>))"

definition conn_close :: "nat \<Rightarrow> world \<Rightarrow> world" where
  "conn_close conn w = w\<lparr>open_conns := removeAll conn (open_conns w)\<rparr>"

text \<open>
  Lines 55 to 60, the body of \<^verbatim>\<open>load_data\<close>:
  \<^verbatim>\<open>conn = get_db_connection(); data = pd.read_sql(query, conn); conn.close(); return data\<close>.
  The statements are in sequence, without \<^verbatim>\<open>try\<close> or \<^verbatim>\<open>with\<close>: an exception raised by
  one of them leaves the function there, and the statements after it are not run.
\<close>

definition load_data :: "db_answer \<Rightarrow> world \<Rightarrow> (load_error + asset_table) \<times> world" where
  "load_data db w =
     (case get_db_connection db w of
        (Inl e, w1) \<Rightarrow> (Inl e, w1)
      | (Inr conn, w1) \<Rightarrow>
          (case read_sql db conn w1 of
             (Inl e, w2) \<Rightarrow> (Inl e, w2)
           | (Inr data, w2) \<Rightarrow> (Inr data, conn_close conn w2)))"

text \<open>
  Line 54, \<^verbatim>\<open>@st.cache_data\<close> on a function without arguments, with the decorator's
  defaults (no expiry, no bound on the entries): a call returns the stored value if
  there is one; otherwise it runs the function and stores what it returns. An exception
  of the function passes through the decorator and nothing is stored. The script never
  clears the store.
\<close>

definition load_data_cached :: "db_answer \<Rightarrow> world \<Rightarrow> (load_error + asset_table) \<times> world" where
  "load_data_cached db w =
     (case cache w of
        Some data \<Rightarrow> (Inr data, w)
      | None \<Rightarrow>
          (case load_data db w of
             (Inl e, w') \<Rightarrow> (Inl e, w')
           | (Inr data, w') \<Rightarrow> (Inr data, w'\<lparr>cache := Some data\<rparr>)))"

text \<open>
  Streamlit runs the script again on every interaction of every session; each run
  executes line 63, \<^verbatim>\<open>data = load_data()\<close>. The runs of one process, one after the
  other, each with the answer the database would give it:
\<close>

fun reruns :: "db_answer list \<Rightarrow> world \<Rightarrow> (load_error + asset_table) list \<times> world" where
  "reruns [] w = ([], w)"
| "reruns (db # dbs) w =
     (case load_data_cached db w of
        (r, w') \<Rightarrow> (case reruns dbs w' of (rs, w'') \<Rightarrow> (r # rs, w'')))"

subsection \<open>CSV export (lines 173 to 179)\<close>

text \<open>
  \<^verbatim>\<open>filtered_data.to_csv(index=False)\<close> with the defaults of \<^verbatim>\<open>to_csv\<close>: the separator is
  a comma, the line terminator is \<^verbatim>\<open>os.linesep\<close> (a line feed, for a server on a POSIX
  system), there is a header line with the column names and no index column, a missing
  cell is written as the empty text (\<^verbatim>\<open>na_rep=''\<close>), and the lines are written by the
  \<^verbatim>\<open>csv\<close> module with \<^verbatim>\<open>QUOTE_MINIMAL\<close>, the quote character \<^verbatim>\<open>"\<close> and
  \<^verbatim>\<open>doublequote=True\<close>.
\<close>

definition comma :: char where "comma = CHR '',''"
definition dquote :: char where "dquote = CHR 0x22"
definition linefeed :: char where "linefeed = CHR 0x0A"

text \<open>
  A field is put in quotes if it holds the separator, the quote character or a character
  of the line terminator; Python versions differ in the further characters that make
  the writer quote a field (from 3.13 on, a carriage return does), and \<open>also_quoted\<close> are
  those. In a quoted field every quote character is doubled. A row that is one empty
  field is written as two quote characters.
\<close>

definition escape_quotes :: "string \<Rightarrow> string" where
  "escape_quotes s = concat (map (\<lambda>c. if c = dquote then [dquote, dquote] else [c]) s)"

definition quote_field :: "char list \<Rightarrow> string \<Rightarrow> string" where
  "quote_field also_quoted s =
     (if list_ex (\<lambda>c. c \<in> set ([comma, dquote, linefeed] @ also_quoted)) s
      then dquote # escape_quotes s @ [dquote]
      else s)"

fun writerow :: "char list \<Rightarrow> string list \<Rightarrow> string" where
  "writerow also_quoted [] = [linefeed]"
| "writerow also_quoted [f] =
     (if f = [] then [dquote, dquote] else quote_field also_quoted f) @ [linefeed]"
| "writerow also_quoted (f # g # fs) =
     quote_field also_quoted f @ comma # writerow also_quoted (g # fs)"

text \<open>
  The text of a number is the one of Python's \<^verbatim>\<open>str\<close>: decimal digits, after a minus
  sign if it is negative.
\<close>

definition digit_char :: "nat \<Rightarrow> char" where
  "digit_char d = char_of (48 + d)"

fun decimal :: "nat \<Rightarrow> string" where
  "decimal n =
     (if n < 10 then [digit_char n] else decimal (n div 10) @ [digit_char (n mod 10)])"

definition show_int :: "int \<Rightarrow> string" where
  "show_int i = (if i < 0 then CHR ''-'' # decimal (nat (- i)) else decimal (nat i))"

text \<open>
  A text cell is written as it is, and a missing cell as the empty text. A count of an
  \<^verbatim>\<open>int64\<close> column is written as an integer. A count of a \<^verbatim>\<open>float64\<close> column is written as
  Python writes a floating point number: below \<open>10\<^sup>1\<^sup>6\<close> in magnitude these are the digits
  of the whole number and the fractional part \<^verbatim>\<open>.0\<close>; from there on it is a text in
  exponent notation, which the model does not write, so that such a frame has no
  exported text in the model.
\<close>

definition text_cell :: "string option \<Rightarrow> string" where
  "text_cell c = (case c of None \<Rightarrow> [] | Some s \<Rightarrow> s)"

definition count_cell :: "bool \<Rightarrow> int option \<Rightarrow> string option" where
  "count_cell floating c =
     (case c of
        None \<Rightarrow> Some []
      | Some n \<Rightarrow>
          (if floating
           then (if \<bar>n\<bar> < 10 ^ 16 then Some (show_int n @ ''.0'') else None)
           else Some (show_int n)))"

definition column_names :: "string list" where
  "column_names =
     [''region_name'', ''z_name'', ''c_name'', ''substation'', ''dtc'', ''ht_pole'', ''lt_pole'']"

definition row_cells :: "count_dtypes \<Rightarrow> asset_record \<Rightarrow> string list option" where
  "row_cells dtypes row =
     (case (count_cell (float_substation dtypes) (substation row),
            count_cell (float_dtc dtypes) (dtc row),
            count_cell (float_ht_pole dtypes) (ht_pole row),
            count_cell (float_lt_pole dtypes) (lt_pole row)) of
        (Some s, Some d, Some h, Some l) \<Rightarrow>
          Some [text_cell (region_name row), text_cell (z_name row), text_cell (c_name row),
                s, d, h, l]
      | _ \<Rightarrow> None)"

definition to_csv :: "char list \<Rightarrow> count_dtypes \<Rightarrow> asset_table \<Rightarrow> string option" where
  "to_csv also_quoted dtypes df =
     (case those (map (row_cells dtypes) df) of
        None \<Rightarrow> None
      | Some lines \<Rightarrow>
          Some (writerow also_quoted column_names @ concat (map (writerow also_quoted) lines)))"

text \<open>
  Line 173, \<^verbatim>\<open>csv = filtered_data.to_csv(index=False)\<close>: the export of the filtered frame,
  whose column types are those of the loaded table.
\<close>

definition csv :: "char list \<Rightarrow> count_dtypes \<Rightarrow> asset_table \<Rightarrow> string option" where
  "csv also_quoted dtypes filtered = to_csv also_quoted dtypes filtered"

subsection \<open>Reading the export back\<close>

text \<open>
  Modelled from the spec: the reader of "parsing the exported CSV", which the repository
  does not contain. It is the reader of RFC 4180 for the dialect written above: fields
  are separated by commas and records are ended by line feeds, a field that starts with
  a quote character runs to the next quote character that is not doubled, and a doubled
  quote character in it stands for one. The first record must be the column names; of
  every other record the first three fields are the text cells and the last four are
  read as whole numbers, written as integers or with the fractional part \<^verbatim>\<open>.0\<close>.
\<close>

datatype reader_mode = Field_start | Plain | Quoted | Quote_in_quoted

fun read_records ::
  "reader_mode \<Rightarrow> string \<Rightarrow> string list \<Rightarrow> string list list \<Rightarrow> string \<Rightarrow> string list list option"
  where
  "read_records m cur cells records [] =
     (if m = Field_start \<and> cells = [] then Some records else None)"
| "read_records Field_start cur cells records (c # cs) =
     (if c = dquote then read_records Quoted [] cells records cs
      else if c = comma then read_records Field_start [] (cells @ [[]]) records cs
      else if c = linefeed then read_records Field_start [] [] (records @ [cells @ [[]]]) cs
      else read_records Plain [c] cells records cs)"
| "read_records Plain cur cells records (c # cs) =
     (if c = comma then read_records Field_start [] (cells @ [cur]) records cs
      else if c = linefeed then read_records Field_start [] [] (records @ [cells @ [cur]]) cs
      else read_records Plain (cur @ [c]) cells records cs)"
| "read_records Quoted cur cells records (c # cs) =
     (if c = dquote then read_records Quote_in_quoted cur cells records cs
      else read_records Quoted (cur @ [c]) cells records cs)"
| "read_records Quote_in_quoted cur cells records (c # cs) =
     (if c = dquote then read_records Quoted (cur @ [dquote]) cells records cs
      else if c = comma then read_records Field_start [] (cells @ [cur]) records cs
      else if c = linefeed then read_records Field_start [] [] (records @ [cells @ [cur]]) cs
      else None)"

fun read_digits :: "nat \<Rightarrow> string \<Rightarrow> nat option" where
  "read_digits acc [] = Some acc"
| "read_digits acc (c # cs) =
     (if 48 \<le> (of_char c :: nat) \<and> (of_char c :: nat) \<le> 57
      then read_digits (10 * acc + (of_char c - 48)) cs
      else None)"

definition read_int :: "string \<Rightarrow> int option" where
  "read_int s =
     (case s of
        [] \<Rightarrow> None
      | c # cs \<Rightarrow>
          (if c = CHR ''-''
           then (if cs = [] then None else map_option (\<lambda>n. - int n) (read_digits 0 cs))
           else map_option int (read_digits 0 s)))"

definition read_count :: "string \<Rightarrow> int option" where
  "read_count s =
     (if 2 \<le> length s \<and> drop (length s - 2) s = ''.0''
      then read_int (take (length s - 2) s)
      else read_int s)"

definition read_row :: "string list \<Rightarrow> asset_record option" where
  "read_row cells =
     (case cells of
        [r, z, c, s, d, h, l] \<Rightarrow>
          (case (read_count s, read_count d, read_count h, read_count l) of
             (Some s', Some d', Some h', Some l') \<Rightarrow>
               Some \<lparr>region_name = Some r, z_name = Some z, c_name = Some c,
                     substation = Some s', dtc = Some d', ht_pole = Some h', lt_pole = Some l'\<rparr>
           | _ \<Rightarrow> None)
      | _ \<Rightarrow> None)"

text \<open>
  Modelled from the spec: the reader as a whole, from the exported text to the rows it
  stands for, or nothing if the text is not an export of the seven columns.
\<close>

definition read_csv :: "string \<Rightarrow> asset_table option" where
  "read_csv text =
     (case read_records Field_start [] [] [] text of
        None \<Rightarrow> None
      | Some [] \<Rightarrow> None
      | Some (header # records) \<Rightarrow>
          (if header = column_names then those (map read_row records) else None))"

text \<open>A row is complete if none of its seven cells is missing.\<close>

definition complete :: "asset_record \<Rightarrow> bool" where
  "complete row \<longleftrightarrow>
     region_name row \<noteq> None \<and> z_name row \<noteq> None \<and> c_name row \<noteq> None \<and>
     substation row \<noteq> None \<and> dtc row \<noteq> None \<and> ht_pole row \<noteq> None \<and> lt_pole row \<noteq> None"

text \<open>
  The counts of a row can be written if those in a \<^verbatim>\<open>float64\<close> column are below \<open>10\<^sup>1\<^sup>6\<close>
  in magnitude.
\<close>

definition plain_floats :: "count_dtypes \<Rightarrow> asset_record \<Rightarrow> bool" where
  "plain_floats dtypes row \<longleftrightarrow>
     (float_substation dtypes \<longrightarrow> \<bar>count_or_zero (substation row)\<bar> < 10 ^ 16) \<and>
     (float_dtc dtypes \<longrightarrow> \<bar>count_or_zero (dtc row)\<bar> < 10 ^ 16) \<and>
     (float_ht_pole dtypes \<longrightarrow> \<bar>count_or_zero (ht_pole row)\<bar> < 10 ^ 16) \<and>
     (float_lt_pole dtypes \<longrightarrow> \<bar>count_or_zero (lt_pole row)\<bar> < 10 ^ 16)"

text \<open>A row of one substation in region \<open>A\<close>, zone \<open>X\<close>, with the given circle.\<close>

definition circle_row :: "string option \<Rightarrow> asset_record" where
  "circle_row c =
     \<lparr>region_name = Some ''A'', z_name = Some ''X'', c_name = c,
      substation = Some 1, dtc = Some 0, ht_pole = Some 0, lt_pole = Some 0\<rparr>"

text \<open>The table of the example in section 8 of the specification.\<close>

definition example_row ::
  "string \<Rightarrow> string \<Rightarrow> int \<Rightarrow> int \<Rightarrow> int \<Rightarrow> int \<Rightarrow> asset_record" where
  "example_row r z s d h l =
     \<lparr>region_name = Some r, z_name = Some z, c_name = Some ''c'',
      substation = Some s, dtc = Some d, ht_pole = Some h, lt_pole = Some l\<rparr>"

definition example_table :: asset_table where
  "example_table =
     [example_row ''A'' ''X'' 2 1 0 0,
      example_row ''A'' ''Y'' 3 0 1 0,
      example_row ''B'' ''X'' 0 5 0 2]"

text \<open>A row in which any of the two keys and the first count may be missing.\<close>

definition sparse_row :: "string option \<Rightarrow> string option \<Rightarrow> int option \<Rightarrow> asset_record" where
  "sparse_row r z s =
     \<lparr>region_name = r, z_name = z, c_name = Some ''c'',
      substation = s, dtc = Some 0, ht_pole = Some 0, lt_pole = Some 0\<rparr>"

text \<open>A row of region \<open>A\<close> and zone \<open>X\<close> with the given counts of substations and DTCs.\<close>

definition count_row :: "int option \<Rightarrow> int option \<Rightarrow> asset_record" where
  "count_row s d =
     \<lparr>region_name = Some ''A'', z_name = Some ''X'', c_name = Some ''c'',
      substation = s, dtc = d, ht_pole = Some 0, lt_pole = Some 0\<rparr>"

section \<open>Properties\<close>

subsection \<open>The filter\<close>

lemma boolean_index_map:
  "boolean_index df (map p df) = filter p df"
  unfolding boolean_index_def
  by (induction df) simp_all

lemma series_and_map:
  "series_and (map p xs) (map q xs) = map (\<lambda>x. p x \<and> q x) xs"
  unfolding series_and_def
  by (induction xs) simp_all

lemma filtered_data_filter:
  "filtered_data data rs zs =
     filter (\<lambda>row. region_name row \<in> set rs \<and> z_name row \<in> set zs) data"
proof -
  have "series_and (isin (map region_name data) rs) (isin (map z_name data) zs) =
        map (\<lambda>row. region_name row \<in> set rs \<and> z_name row \<in> set zs) data"
    unfolding isin_def map_map
    using series_and_map [of "\<lambda>row. region_name row \<in> set rs" data
                              "\<lambda>row. z_name row \<in> set zs"]
    by (simp add: comp_def)
  then show ?thesis
    unfolding filtered_data_def by (simp add: boolean_index_map)
qed

lemma set_unique_from: "set (unique_from seen xs) = set xs - set seen"
  by (induction xs arbitrary: seen) auto

lemma set_unique: "set (unique xs) = set xs"
  by (simp add: unique_def set_unique_from)

text \<open>
  C1. The filtered frame holds exactly the rows of the table whose region is among the
  selected regions and whose zone is among the selected zones, each as often and in the
  order in which the table has it: it is the table with the other rows struck out, and
  so a subsequence of the table.
\<close>

theorem filter_exact_subsequence:
  "filtered_data data rs zs =
     filter (\<lambda>row. region_name row \<in> set rs \<and> z_name row \<in> set zs) data
   \<and> subseq (filtered_data data rs zs) data
   \<and> (\<forall>row. row \<in> set (filtered_data data rs zs) \<longleftrightarrow>
         row \<in> set data \<and> region_name row \<in> set rs \<and> z_name row \<in> set zs)"
  by (simp add: filtered_data_filter)

theorem filter_exact_subsequence_witness:
  "filtered_data example_table [Some ''A''] [Some ''X'', Some ''Y''] =
     [example_row ''A'' ''X'' 2 1 0 0, example_row ''A'' ''Y'' 3 0 1 0]
   \<and> subseq [example_row ''A'' ''X'' 2 1 0 0, example_row ''A'' ''Y'' 3 0 1 0] example_table"
proof -
  let ?v = "filtered_data example_table [Some ''A''] [Some ''X'', Some ''Y'']"
  have eq: "filter (\<lambda>row. region_name row \<in> set [Some ''A''] \<and>
                         z_name row \<in> set [Some ''X'', Some ''Y'']) example_table =
            [example_row ''A'' ''X'' 2 1 0 0, example_row ''A'' ''Y'' 3 0 1 0]"
    by (simp add: example_table_def example_row_def)
  note inst = filter_exact_subsequence
    [of example_table "[Some ''A'']" "[Some ''X'', Some ''Y'']"]
  from inst have v: "?v = [example_row ''A'' ''X'' 2 1 0 0, example_row ''A'' ''Y'' 3 0 1 0]"
    unfolding eq by (rule conjunct1)
  from inst have "subseq ?v example_table"
    by (rule conjunct1 [OF conjunct2])
  with v show ?thesis by simp
qed

lemma filtered_data_default_selection:
  "filtered_data data (region_options data) (zone_options data) = data"
  by (simp add: filtered_data_filter region_options_def zone_options_def set_unique)

text \<open>
  C5. With the default selection, which is every region and every zone the table holds,
  the filtered frame is the table itself.
\<close>

theorem filter_full_domain_identity:
  "filtered_data data (region_options data) (zone_options data) = data"
  by (rule filtered_data_default_selection)

text \<open>
  C10. A larger selection keeps every row a smaller one keeps (the smaller frame is a
  subsequence of the larger), and filtering a filtered frame again with the same
  selection changes nothing.
\<close>

theorem filter_monotone_idempotent:
  assumes "set rs \<subseteq> set rs'" and "set zs \<subseteq> set zs'"
  shows "set (filtered_data data rs zs) \<subseteq> set (filtered_data data rs' zs')
       \<and> subseq (filtered_data data rs zs) (filtered_data data rs' zs')
       \<and> filtered_data (filtered_data data rs zs) rs zs = filtered_data data rs zs"
proof -
  have sub: "set (filtered_data data rs zs) \<subseteq> set (filtered_data data rs' zs')"
    using assms by (auto simp: filtered_data_filter)
  have "filtered_data data rs zs = filtered_data (filtered_data data rs' zs') rs zs"
    using assms
    by (auto simp: filtered_data_filter intro!: filter_cong)
  then have seq: "subseq (filtered_data data rs zs) (filtered_data data rs' zs')"
    by (metis filtered_data_filter subseq_filter_left)
  have idem: "filtered_data (filtered_data data rs zs) rs zs = filtered_data data rs zs"
    by (simp add: filtered_data_filter)
  from sub seq idem show ?thesis by blast
qed

theorem filter_monotone_idempotent_witness:
  "set [Some ''A''] \<subseteq> set [Some ''A'', Some ''B'']
   \<and> set [Some ''X''] \<subseteq> set [Some ''X'', Some ''Y'']
   \<and> set (filtered_data example_table [Some ''A''] [Some ''X''])
       \<subseteq> set (filtered_data example_table [Some ''A'', Some ''B''] [Some ''X'', Some ''Y''])
   \<and> subseq (filtered_data example_table [Some ''A''] [Some ''X''])
       (filtered_data example_table [Some ''A'', Some ''B''] [Some ''X'', Some ''Y''])
   \<and> filtered_data (filtered_data example_table [Some ''A''] [Some ''X'']) [Some ''A''] [Some ''X'']
       = filtered_data example_table [Some ''A''] [Some ''X'']"
proof -
  have h1: "set [Some ''A''] \<subseteq> set [Some ''A'', Some ''B'']" by simp
  have h2: "set [Some ''X''] \<subseteq> set [Some ''X'', Some ''Y'']" by simp
  from filter_monotone_idempotent [OF h1 h2, of example_table] h1 h2
  show ?thesis by blast
qed

subsection \<open>Sums\<close>

lemma fold_add_sum_list: "fold (\<lambda>x acc. acc + x) xs (a::int) = a + sum_list xs"
  by (induction xs arbitrary: a) simp_all

lemma wrap64_add_left: "wrap64 (wrap64 a + x) = wrap64 (a + x)"
proof -
  define m where "m = (a + 2 ^ 63) mod 2 ^ 64"
  have w: "wrap64 a = m - 2 ^ 63"
    by (simp add: wrap64_def m_def)
  have "wrap64 (wrap64 a + x) = (m + x) mod 2 ^ 64 - 2 ^ 63"
    unfolding w by (simp add: wrap64_def)
  also have "\<dots> = (a + 2 ^ 63 + x) mod 2 ^ 64 - 2 ^ 63"
    unfolding m_def by (simp only: mod_add_left_eq)
  also have "\<dots> = wrap64 (a + x)"
    by (simp add: wrap64_def algebra_simps)
  finally show ?thesis .
qed

lemma wrap64_id: "- (2 ^ 63) \<le> n \<Longrightarrow> n < 2 ^ 63 \<Longrightarrow> wrap64 n = n"
  by (simp add: wrap64_def)

lemma fold_wrap64:
  "fold (\<lambda>x acc. wrap64 (acc + x)) xs (wrap64 a) = wrap64 (a + sum_list xs)"
proof (induction xs arbitrary: a)
  case Nil
  show ?case by simp
next
  case (Cons x xs)
  from Cons [of "a + x"] show ?case
    by (simp add: wrap64_add_left add.assoc)
qed

lemma fold_wrap64_0: "fold (\<lambda>x acc. wrap64 (acc + x)) xs 0 = wrap64 (sum_list xs)"
  using fold_wrap64 [of xs 0] by (simp add: wrap64_def)

lemma dropna_sum:
  "(\<Sum>x\<leftarrow>dropna column. g x) = (\<Sum>c\<leftarrow>column. case c of None \<Rightarrow> 0 | Some n \<Rightarrow> (g n :: int))"
proof (induction column)
  case Nil
  show ?case by simp
next
  case (Cons c column)
  then show ?case by (cases c) simp_all
qed

lemma dropna_sum_value: "sum_list (dropna column) = (\<Sum>c\<leftarrow>column. count_or_zero c)"
  using dropna_sum [of "\<lambda>x. x" column] by (simp add: count_or_zero_def)

lemma dropna_sum_abs: "(\<Sum>x\<leftarrow>dropna column. \<bar>x\<bar>) = (\<Sum>c\<leftarrow>column. \<bar>count_or_zero c\<bar>)"
proof -
  have "(case c of None \<Rightarrow> 0 | Some n \<Rightarrow> \<bar>n\<bar>) = \<bar>count_or_zero c\<bar>" for c :: "int option"
    by (cases c) (simp_all add: count_or_zero_def)
  then show ?thesis
    using dropna_sum [of abs column] by simp
qed

text \<open>What \<open>series_sum\<close> computes, in terms of the whole numbers of the column.\<close>

lemma series_sum_eq:
  "series_sum floating column =
     (if floating
      then (if (\<Sum>c\<leftarrow>column. \<bar>count_or_zero c\<bar>) \<le> 2 ^ 53
            then Value (\<Sum>c\<leftarrow>column. count_or_zero c) else Rounded)
      else Value (wrap64 (\<Sum>c\<leftarrow>column. count_or_zero c)))"
  unfolding series_sum_def
  by (simp only: fold_add_sum_list fold_wrap64_0 dropna_sum_abs dropna_sum_value) simp

lemma series_sum_Nil: "series_sum floating [] = Value 0"
  by (simp add: series_sum_eq wrap64_def)

lemma series_sum_exact:
  assumes "magnitude col rows \<le> exact_bound floating"
  shows "series_sum floating (map col rows) = Value (\<Sum>row\<leftarrow>rows. count_or_zero (col row))"
proof -
  let ?s = "\<Sum>row\<leftarrow>rows. count_or_zero (col row)"
  have eq: "series_sum floating (map col rows) =
     (if floating
      then (if magnitude col rows \<le> 2 ^ 53 then Value ?s else Rounded)
      else Value (wrap64 ?s))"
    unfolding series_sum_eq magnitude_def by (simp add: comp_def)
  have bound: "\<bar>?s\<bar> \<le> magnitude col rows"
    unfolding magnitude_def using sum_list_abs [of "map (\<lambda>row. count_or_zero (col row)) rows"]
    by (simp add: comp_def)
  show ?thesis
  proof (cases floating)
    case True
    with assms show ?thesis
      unfolding eq by (simp add: exact_bound_def)
  next
    case False
    with assms bound have "- (2 ^ 63) \<le> ?s" and "?s < 2 ^ 63"
      by (simp_all add: exact_bound_def)
    then have "wrap64 ?s = ?s" by (rule wrap64_id)
    with False show ?thesis
      unfolding eq by simp
  qed
qed

lemma magnitude_filter: "magnitude col (filter P rows) \<le> magnitude col rows"
  unfolding magnitude_def by (induction rows) (auto intro: add_increasing)

lemma in_range_filter: "in_range dtypes col rows \<Longrightarrow> in_range dtypes col (filter P rows)"
  unfolding in_range_def using magnitude_filter [of "cell col" P rows] by linarith

lemma sum_of_agg_sum:
  "sum_of col (agg_sum dtypes rows) = series_sum (is_float dtypes col) (map (cell col) rows)"
  by (cases col) (simp_all add: agg_sum_def comp_def cong: map_cong)

lemma total_of_agg_sum: "total_of dtypes col v = sum_of col (agg_sum dtypes v)"
  by (cases col)
    (simp_all add: agg_sum_def total_substation_def total_dtc_def total_ht_pole_def
      total_lt_pole_def)

lemma column_exact:
  assumes "in_range dtypes col rows"
  shows "sum_of col (agg_sum dtypes rows) = Value (\<Sum>row\<leftarrow>rows. count_or_zero (cell col row))"
  unfolding sum_of_agg_sum using assms unfolding in_range_def by (rule series_sum_exact)

lemma agg_sum_Nil: "agg_sum dtypes [] = zero_sums"
  by (simp add: agg_sum_def zero_sums_def series_sum_Nil)

lemma filtered_data_empty_selection: "filtered_data data [] [] = []"
  by (simp add: filtered_data_filter)

text \<open>
  C2 (as amended). As long as the counts of a column stay in the range in which the
  additions of the column's type are those of the whole numbers, the total of the
  column is the sum of the column over the rows of the filtered frame, a missing cell
  adding nothing. The frame of the empty selection has no row and its four totals are
  zero, whatever the types of the columns.
\<close>

theorem totals_are_column_sums:
  "(in_range dtypes col v \<longrightarrow>
       total_of dtypes col v = Value (\<Sum>row\<leftarrow>v. count_or_zero (cell col row)))
   \<and> filtered_data data [] [] = []
   \<and> total_substation dtypes (filtered_data data [] []) = Value 0
   \<and> total_dtc dtypes (filtered_data data [] []) = Value 0
   \<and> total_ht_pole dtypes (filtered_data data [] []) = Value 0
   \<and> total_lt_pole dtypes (filtered_data data [] []) = Value 0"
proof -
  have "total_of dtypes col v = Value (\<Sum>row\<leftarrow>v. count_or_zero (cell col row))"
    if "in_range dtypes col v"
    unfolding total_of_agg_sum using that by (rule column_exact)
  moreover have "total_substation dtypes [] = Value 0" "total_dtc dtypes [] = Value 0"
    "total_ht_pole dtypes [] = Value 0" "total_lt_pole dtypes [] = Value 0"
    by (simp_all add: total_substation_def total_dtc_def total_ht_pole_def total_lt_pole_def
        series_sum_Nil)
  ultimately show ?thesis
    by (simp add: filtered_data_empty_selection)
qed

theorem totals_are_column_sums_witness:
  "in_range (dtypes_of example_table) Substation
     (filtered_data example_table [Some ''A''] [Some ''X'', Some ''Y''])
   \<and> in_range (dtypes_of example_table) Dtc
     (filtered_data example_table [Some ''A''] [Some ''X'', Some ''Y''])
   \<and> total_substation (dtypes_of example_table)
       (filtered_data example_table [Some ''A''] [Some ''X'', Some ''Y'']) = Value 5
   \<and> total_dtc (dtypes_of example_table)
       (filtered_data example_table [Some ''A''] [Some ''X'', Some ''Y'']) = Value 1"
proof -
  let ?v = "filtered_data example_table [Some ''A''] [Some ''X'', Some ''Y'']"
  let ?dt = "dtypes_of example_table"
  have v: "?v = [example_row ''A'' ''X'' 2 1 0 0, example_row ''A'' ''Y'' 3 0 1 0]"
    by (simp add: filtered_data_filter example_table_def example_row_def)
  have r: "in_range ?dt Substation ?v" "in_range ?dt Dtc ?v"
    unfolding v
    by (simp_all add: in_range_def magnitude_def exact_bound_def example_row_def
        count_or_zero_def)
  from totals_are_column_sums [of ?dt Substation ?v example_table] r(1)
  have "total_of ?dt Substation ?v = Value (\<Sum>row\<leftarrow>?v. count_or_zero (cell Substation row))"
    by blast
  moreover from totals_are_column_sums [of ?dt Dtc ?v example_table] r(2)
  have "total_of ?dt Dtc ?v = Value (\<Sum>row\<leftarrow>?v. count_or_zero (cell Dtc row))"
    by blast
  moreover have "(\<Sum>row\<leftarrow>?v. count_or_zero (cell Substation row)) = 5"
    "(\<Sum>row\<leftarrow>?v. count_or_zero (cell Dtc row)) = 1"
    unfolding v by (simp_all add: example_row_def count_or_zero_def)
  ultimately show ?thesis using r by simp
qed

text \<open>
  The claim as it was stated fails on a table with two rows of \<open>2\<^sup>6\<^sup>2\<close> substations each:
  no count is missing, so the column is \<^verbatim>\<open>int64\<close>, the default selection keeps both
  rows, and the total wraps around to \<open>- 2\<^sup>6\<^sup>3\<close>, where the sum of the column is \<open>2\<^sup>6\<^sup>3\<close>.
\<close>

theorem totals_counterexample:
  "filtered_data
     [count_row (Some 4611686018427387904) (Some 0), count_row (Some 4611686018427387904) (Some 0)]
     (region_options
       [count_row (Some 4611686018427387904) (Some 0), count_row (Some 4611686018427387904) (Some 0)])
     (zone_options
       [count_row (Some 4611686018427387904) (Some 0), count_row (Some 4611686018427387904) (Some 0)])
   = [count_row (Some 4611686018427387904) (Some 0), count_row (Some 4611686018427387904) (Some 0)]
   \<and> float_substation (dtypes_of
       [count_row (Some 4611686018427387904) (Some 0), count_row (Some 4611686018427387904) (Some 0)])
     = False
   \<and> total_substation
       (dtypes_of
         [count_row (Some 4611686018427387904) (Some 0), count_row (Some 4611686018427387904) (Some 0)])
       [count_row (Some 4611686018427387904) (Some 0), count_row (Some 4611686018427387904) (Some 0)]
     = Value (- 9223372036854775808)
   \<and> (\<Sum>row\<leftarrow>[count_row (Some 4611686018427387904) (Some 0),
               count_row (Some 4611686018427387904) (Some 0)].
        count_or_zero (substation row)) = 9223372036854775808"
  by (simp add: filtered_data_default_selection dtypes_of_def has_na_def total_substation_def
      series_sum_def wrap64_def count_row_def count_or_zero_def)

subsection \<open>Grouped sums\<close>

lemma sum_list_delta:
  "distinct ks \<Longrightarrow> (\<Sum>k\<leftarrow>ks. if a = k then (c::int) else 0) = (if a \<in> set ks then c else 0)"
  by (induction ks) auto

lemma sum_list_groups:
  assumes "distinct ks" and "\<forall>x\<in>set xs. g x \<in> set ks"
  shows "(\<Sum>k\<leftarrow>ks. \<Sum>x\<leftarrow>filter (\<lambda>x. g x = k) xs. (f x :: int)) = (\<Sum>x\<leftarrow>xs. f x)"
  using assms(2)
proof (induction xs)
  case Nil
  show ?case by simp
next
  case (Cons x xs)
  have "(\<Sum>k\<leftarrow>ks. \<Sum>y\<leftarrow>filter (\<lambda>y. g y = k) (x # xs). f y) =
        (\<Sum>k\<leftarrow>ks. (if g x = k then f x else 0) + (\<Sum>y\<leftarrow>filter (\<lambda>y. g y = k) xs. f y))"
    by (rule arg_cong [where f = sum_list]) (rule map_cong, simp_all)
  also have "\<dots> = (\<Sum>k\<leftarrow>ks. if g x = k then f x else 0) +
                   (\<Sum>k\<leftarrow>ks. \<Sum>y\<leftarrow>filter (\<lambda>y. g y = k) xs. f y)"
    by (simp add: sum_list_addf)
  also have "(\<Sum>k\<leftarrow>ks. if g x = k then f x else 0) = f x"
    using Cons.prems assms(1) by (simp add: sum_list_delta)
  also have "(\<Sum>k\<leftarrow>ks. \<Sum>y\<leftarrow>filter (\<lambda>y. g y = k) xs. f y) = (\<Sum>y\<leftarrow>xs. f y)"
    using Cons by simp
  finally show ?case by simp
qed

lemma set_dropna: "set (dropna xs) = {x. Some x \<in> set xs}"
proof (induction xs)
  case Nil
  show ?case by simp
next
  case (Cons x xs)
  then show ?case by (cases x) auto
qed

lemma distinct_group_keys: "distinct (group_keys column)"
  by (simp add: group_keys_def)

lemma set_group_keys: "set (group_keys column) = {k. Some k \<in> set column}"
  by (simp add: group_keys_def set_dropna)

lemma sum_totals_Value: "sum_totals (map (\<lambda>x. Value (h x)) xs) = Value (\<Sum>x\<leftarrow>xs. h x)"
  by (induction xs) simp_all

text \<open>
  The sums of a column in the groups of a key, added up over the keys, are the sum of
  the column over the rows that have a key.
\<close>

lemma groups_column:
  assumes range: "in_range dtypes col v"
    and ks: "distinct ks" "\<forall>row\<in>set v. key row \<noteq> None \<longrightarrow> the (key row) \<in> set ks"
  shows "sum_totals (map (\<lambda>k. sum_of col (agg_sum dtypes (filter (\<lambda>row. key row = Some k) v))) ks) =
         sum_of col (agg_sum dtypes (filter (\<lambda>row. key row \<noteq> None) v))"
proof -
  let ?present = "filter (\<lambda>row. key row \<noteq> None) v"
  let ?f = "\<lambda>row. count_or_zero (cell col row)"
  have same: "filter (\<lambda>row. key row = Some k) v = filter (\<lambda>row. the (key row) = k) ?present"
    for k
    by (auto simp: filter_filter intro!: filter_cong)
  have "map (\<lambda>k. sum_of col (agg_sum dtypes (filter (\<lambda>row. key row = Some k) v))) ks =
        map (\<lambda>k. Value (\<Sum>row\<leftarrow>filter (\<lambda>row. key row = Some k) v. ?f row)) ks"
    by (simp add: column_exact in_range_filter [OF range])
  then have "sum_totals (map (\<lambda>k. sum_of col (agg_sum dtypes (filter (\<lambda>row. key row = Some k) v))) ks) =
        Value (\<Sum>k\<leftarrow>ks. \<Sum>row\<leftarrow>filter (\<lambda>row. key row = Some k) v. ?f row)"
    by (simp only: sum_totals_Value)
  also have "(\<Sum>k\<leftarrow>ks. \<Sum>row\<leftarrow>filter (\<lambda>row. key row = Some k) v. ?f row) =
             (\<Sum>row\<leftarrow>?present. ?f row)"
    unfolding same
  proof (rule sum_list_groups)
    show "distinct ks" by (rule ks(1))
    show "\<forall>row\<in>set ?present. the (key row) \<in> set ks"
      using ks(2) by simp
  qed
  also have "Value (\<Sum>row\<leftarrow>?present. ?f row) = sum_of col (agg_sum dtypes ?present)"
    by (simp only: column_exact [OF in_range_filter [OF range]])
  finally show ?thesis .
qed

lemma groupby_sum_column:
  assumes "in_range dtypes col v"
  shows "sum_totals (map (\<lambda>g. sum_of col (snd g)) (groupby_sum dtypes key v)) =
         total_of dtypes col (filter (\<lambda>row. key row \<noteq> None) v)"
proof -
  have "map (\<lambda>g. sum_of col (snd g)) (groupby_sum dtypes key v) =
        map (\<lambda>k. sum_of col (agg_sum dtypes (filter (\<lambda>row. key row = Some k) v)))
            (group_keys (map key v))"
    by (simp add: groupby_sum_def comp_def)
  moreover have "\<forall>row\<in>set v. key row \<noteq> None \<longrightarrow> the (key row) \<in> set (group_keys (map key v))"
    by (auto simp: set_group_keys image_iff)
  ultimately show ?thesis
    using groups_column [OF assms distinct_group_keys, of key "map key v"]
    by (simp only: total_of_agg_sum)
qed

lemma filter_all_present:
  "\<forall>row\<in>set v. key row \<noteq> None \<Longrightarrow> filter (\<lambda>row. key row \<noteq> None) v = v"
  by (induction v) simp_all

text \<open>
  C3 (as amended). The groups are formed from the rows whose key is not missing. As
  long as the counts of a column stay in the range in which the additions of the
  column's type are those of the whole numbers, the column sums, over the groups of
  either key column, to its total over the rows that have the key; in a filtered frame
  in which no row lacks the key, that is the total of the frame.
\<close>

theorem grouped_sums_equal_totals:
  "(in_range dtypes col v \<longrightarrow>
       sum_totals (map (\<lambda>g. sum_of col (snd g)) (region_data dtypes v)) =
         total_of dtypes col (filter (\<lambda>row. region_name row \<noteq> None) v)
     \<and> sum_totals (map (\<lambda>g. sum_of col (snd g)) (zone_data dtypes v)) =
         total_of dtypes col (filter (\<lambda>row. z_name row \<noteq> None) v))
   \<and> (in_range dtypes col v \<and> (\<forall>row\<in>set v. region_name row \<noteq> None) \<longrightarrow>
       sum_totals (map (\<lambda>g. sum_of col (snd g)) (region_data dtypes v)) = total_of dtypes col v)
   \<and> (in_range dtypes col v \<and> (\<forall>row\<in>set v. z_name row \<noteq> None) \<longrightarrow>
       sum_totals (map (\<lambda>g. sum_of col (snd g)) (zone_data dtypes v)) = total_of dtypes col v)"
proof -
  have r: "sum_totals (map (\<lambda>g. sum_of col (snd g)) (region_data dtypes v)) =
         total_of dtypes col (filter (\<lambda>row. region_name row \<noteq> None) v)"
    if "in_range dtypes col v"
    unfolding region_data_def using that by (rule groupby_sum_column)
  have z: "sum_totals (map (\<lambda>g. sum_of col (snd g)) (zone_data dtypes v)) =
         total_of dtypes col (filter (\<lambda>row. z_name row \<noteq> None) v)"
    if "in_range dtypes col v"
    unfolding zone_data_def using that by (rule groupby_sum_column)
  have r': "sum_totals (map (\<lambda>g. sum_of col (snd g)) (region_data dtypes v)) = total_of dtypes col v"
    if "in_range dtypes col v" and "\<forall>row\<in>set v. region_name row \<noteq> None"
    using r [OF that(1)] filter_all_present [OF that(2)] by simp
  have z': "sum_totals (map (\<lambda>g. sum_of col (snd g)) (zone_data dtypes v)) = total_of dtypes col v"
    if "in_range dtypes col v" and "\<forall>row\<in>set v. z_name row \<noteq> None"
    using z [OF that(1)] filter_all_present [OF that(2)] by simp
  from r z r' z' show ?thesis by blast
qed

theorem grouped_sums_equal_totals_witness:
  "in_range (dtypes_of example_table) Substation example_table
   \<and> list_all (\<lambda>row. region_name row \<noteq> None) example_table
   \<and> list_all (\<lambda>row. z_name row \<noteq> None) example_table
   \<and> sum_totals (map (\<lambda>g. sum_substation (snd g))
        (region_data (dtypes_of example_table) example_table)) = Value 5
   \<and> sum_totals (map (\<lambda>g. sum_substation (snd g))
        (zone_data (dtypes_of example_table) example_table)) = Value 5
   \<and> total_substation (dtypes_of example_table) example_table = Value 5"
proof -
  have h0: "in_range (dtypes_of example_table) Substation example_table"
    by (simp add: in_range_def magnitude_def exact_bound_def example_table_def
        example_row_def count_or_zero_def)
  have h1: "\<forall>row\<in>set example_table. region_name row \<noteq> None"
    by (simp add: example_table_def example_row_def)
  have h2: "\<forall>row\<in>set example_table. z_name row \<noteq> None"
    by (simp add: example_table_def example_row_def)
  have t1: "total_substation (dtypes_of example_table) example_table = Value 5"
    by (simp add: total_substation_def series_sum_def dtypes_of_def has_na_def wrap64_def
        example_table_def example_row_def)
  from grouped_sums_equal_totals [of "dtypes_of example_table" Substation example_table]
    h0 h1 h2
  have "sum_totals (map (\<lambda>g. sum_of Substation (snd g))
          (region_data (dtypes_of example_table) example_table)) =
        total_of (dtypes_of example_table) Substation example_table"
    and "sum_totals (map (\<lambda>g. sum_of Substation (snd g))
          (zone_data (dtypes_of example_table) example_table)) =
        total_of (dtypes_of example_table) Substation example_table"
    by blast+
  with h0 h1 h2 t1 show ?thesis by (simp add: list_all_iff)
qed

text \<open>
  The claim as it was stated fails on a table with a row whose region is missing: the
  default selection keeps the row, the total counts its substations, and no group does.
\<close>

theorem grouped_sums_counterexample:
  "filtered_data [sparse_row (Some ''A'') (Some ''X'') (Some 1), sparse_row None (Some ''X'') (Some 2)]
     (region_options [sparse_row (Some ''A'') (Some ''X'') (Some 1), sparse_row None (Some ''X'') (Some 2)])
     (zone_options [sparse_row (Some ''A'') (Some ''X'') (Some 1), sparse_row None (Some ''X'') (Some 2)])
   = [sparse_row (Some ''A'') (Some ''X'') (Some 1), sparse_row None (Some ''X'') (Some 2)]
   \<and> total_substation
       (dtypes_of [sparse_row (Some ''A'') (Some ''X'') (Some 1), sparse_row None (Some ''X'') (Some 2)])
       [sparse_row (Some ''A'') (Some ''X'') (Some 1), sparse_row None (Some ''X'') (Some 2)]
     = Value 3
   \<and> sum_totals (map (\<lambda>g. sum_substation (snd g))
       (region_data
         (dtypes_of [sparse_row (Some ''A'') (Some ''X'') (Some 1), sparse_row None (Some ''X'') (Some 2)])
         [sparse_row (Some ''A'') (Some ''X'') (Some 1), sparse_row None (Some ''X'') (Some 2)]))
     = Value 1"
  by (simp add: filtered_data_default_selection total_substation_def region_data_def
      groupby_sum_def group_keys_def agg_sum_def series_sum_def dtypes_of_def has_na_def
      wrap64_def sparse_row_def)

subsection \<open>The pivot table\<close>

lemma key_pair_Some:
  "key_pair row = Some (r, z) \<longleftrightarrow> region_name row = Some r \<and> z_name row = Some z"
  by (simp add: key_pair_def split: option.split)

lemma key_pair_None:
  "key_pair row \<noteq> None \<longleftrightarrow> region_name row \<noteq> None \<and> z_name row \<noteq> None"
  by (simp add: key_pair_def split: option.split)

lemma map_of_pivot_agged:
  "map_of (pivot_agged dtypes v) p =
     (if p \<in> set (group_keys (map key_pair v))
      then Some (agg_sum dtypes (filter (\<lambda>row. key_pair row = Some p) v)) else None)"
  unfolding pivot_agged_def
  by (simp add: map_of_map_restrict restrict_map_def)

lemma pivot_cell_value:
  "(case map_of (pivot_agged dtypes v) p of Some s \<Rightarrow> s | None \<Rightarrow> zero_sums) =
     agg_sum dtypes (filter (\<lambda>row. key_pair row = Some p) v)"
proof (cases "p \<in> set (group_keys (map key_pair v))")
  case True
  then show ?thesis by (simp add: map_of_pivot_agged)
next
  case False
  then have "filter (\<lambda>row. key_pair row = Some p) v = []"
    by (auto simp: set_group_keys filter_empty_conv image_iff)
  with False show ?thesis by (simp add: map_of_pivot_agged agg_sum_Nil)
qed

lemma pivot_cells_heatmap:
  "pivot_cells (heatmap_data dtypes v) =
     map (\<lambda>p. (p, agg_sum dtypes (filter (\<lambda>row. key_pair row = Some p) v)))
         (List.product (pivot_index v) (pivot_columns v))"
proof -
  have i: "map (\<lambda>g. fst (fst g)) (pivot_agged dtypes v) = map fst (group_keys (map key_pair v))"
    by (simp add: pivot_agged_def comp_def)
  have c: "map (\<lambda>g. snd (fst g)) (pivot_agged dtypes v) = map snd (group_keys (map key_pair v))"
    by (simp add: pivot_agged_def comp_def)
  show ?thesis
    unfolding heatmap_data_def unstack_def pivot_cells_def Let_def i c
      pivot_index_def [symmetric] pivot_columns_def [symmetric]
    by (simp add: comp_def pivot_cell_value product_concat_map map_concat)
qed

lemma set_group_keys_pairs:
  "set (group_keys (map key_pair v)) =
     {(r, z). \<exists>row\<in>set v. region_name row = Some r \<and> z_name row = Some z}"
proof (rule set_eqI)
  fix p :: "string \<times> string"
  obtain r z where p: "p = (r, z)" by (cases p)
  have "p \<in> set (group_keys (map key_pair v)) \<longleftrightarrow> (\<exists>row\<in>set v. key_pair row = Some (r, z))"
    unfolding p set_group_keys by (simp add: image_iff) metis
  then show "p \<in> set (group_keys (map key_pair v)) \<longleftrightarrow>
             p \<in> {(r, z). \<exists>row\<in>set v. region_name row = Some r \<and> z_name row = Some z}"
    by (simp add: p key_pair_Some)
qed

lemma set_pivot_index:
  "set (pivot_index v) = {r. \<exists>row\<in>set v. region_name row = Some r \<and> z_name row \<noteq> None}"
proof -
  have "set (pivot_index v) = fst ` set (group_keys (map key_pair v))"
    by (simp add: pivot_index_def)
  also have "\<dots> = {r. \<exists>row\<in>set v. region_name row = Some r \<and> z_name row \<noteq> None}"
    unfolding set_group_keys_pairs by force
  finally show ?thesis .
qed

lemma set_pivot_columns:
  "set (pivot_columns v) = {z. \<exists>row\<in>set v. z_name row = Some z \<and> region_name row \<noteq> None}"
proof -
  have "set (pivot_columns v) = snd ` set (group_keys (map key_pair v))"
    by (simp add: pivot_columns_def)
  also have "\<dots> = {z. \<exists>row\<in>set v. z_name row = Some z \<and> region_name row \<noteq> None}"
    unfolding set_group_keys_pairs by force
  finally show ?thesis .
qed

lemma distinct_pivot_keys: "distinct (List.product (pivot_index v) (pivot_columns v))"
  by (simp add: distinct_product pivot_index_def pivot_columns_def)

lemma pivot_column:
  assumes "in_range dtypes col v"
  shows "sum_totals (map (\<lambda>c. sum_of col (snd c)) (pivot_cells (heatmap_data dtypes v))) =
         total_of dtypes col (filter (\<lambda>row. region_name row \<noteq> None \<and> z_name row \<noteq> None) v)"
proof -
  let ?ks = "List.product (pivot_index v) (pivot_columns v)"
  have cells: "map (\<lambda>c. sum_of col (snd c)) (pivot_cells (heatmap_data dtypes v)) =
      map (\<lambda>p. sum_of col (agg_sum dtypes (filter (\<lambda>row. key_pair row = Some p) v))) ?ks"
    unfolding pivot_cells_heatmap by (simp add: comp_def)
  have keys: "\<forall>row\<in>set v. key_pair row \<noteq> None \<longrightarrow> the (key_pair row) \<in> set ?ks"
  proof (intro ballI impI)
    fix row
    assume "row \<in> set v" and "key_pair row \<noteq> None"
    then obtain r z where rz: "key_pair row = Some (r, z)"
      by auto
    with \<open>row \<in> set v\<close> have "r \<in> set (pivot_index v)" and "z \<in> set (pivot_columns v)"
      by (auto simp: set_pivot_index set_pivot_columns key_pair_Some)
    with rz show "the (key_pair row) \<in> set ?ks" by simp
  qed
  have "sum_totals (map (\<lambda>c. sum_of col (snd c)) (pivot_cells (heatmap_data dtypes v))) =
        sum_of col (agg_sum dtypes (filter (\<lambda>row. key_pair row \<noteq> None) v))"
    unfolding cells using assms distinct_pivot_keys keys by (rule groups_column)
  also have "filter (\<lambda>row. key_pair row \<noteq> None) v =
             filter (\<lambda>row. region_name row \<noteq> None \<and> z_name row \<noteq> None) v"
    by (simp only: key_pair_None)
  finally show ?thesis
    by (simp only: total_of_agg_sum)
qed

lemma pivot_cells_keys:
  "map fst (pivot_cells (heatmap_data dtypes v)) = List.product (pivot_index v) (pivot_columns v)"
  by (simp add: pivot_cells_heatmap comp_def)

lemma pivot_cell_snd:
  assumes "c \<in> set (pivot_cells (heatmap_data dtypes v))"
  shows "snd c = agg_sum dtypes (filter (\<lambda>row. region_name row = Some (fst (fst c)) \<and>
                                        z_name row = Some (snd (fst c))) v)"
proof -
  from assms obtain p where c: "c = (p, agg_sum dtypes (filter (\<lambda>row. key_pair row = Some p) v))"
    unfolding pivot_cells_heatmap by auto
  obtain r z where p: "p = (r, z)" by (cases p)
  show ?thesis by (simp add: c p key_pair_Some)
qed

lemma all_keys_present:
  assumes "\<forall>row\<in>set v. region_name row \<noteq> None \<and> z_name row \<noteq> None"
  shows "{r. \<exists>row\<in>set v. region_name row = Some r \<and> z_name row \<noteq> None} =
           {r. Some r \<in> region_name ` set v}"
    and "{z. \<exists>row\<in>set v. z_name row = Some z \<and> region_name row \<noteq> None} =
           {z. Some z \<in> z_name ` set v}"
    and "filter (\<lambda>row. region_name row \<noteq> None \<and> z_name row \<noteq> None) v = v"
proof -
  show "{r. \<exists>row\<in>set v. region_name row = Some r \<and> z_name row \<noteq> None} =
          {r. Some r \<in> region_name ` set v}"
    using assms by (auto simp: image_iff) metis
  show "{z. \<exists>row\<in>set v. z_name row = Some z \<and> region_name row \<noteq> None} =
          {z. Some z \<in> z_name ` set v}"
    using assms by (auto simp: image_iff) metis
  show "filter (\<lambda>row. region_name row \<noteq> None \<and> z_name row \<noteq> None) v = v"
    using assms by (induction v) simp_all
qed

text \<open>
  C4 (as amended). The pivot table is a dense grid with exactly one cell for every pair
  of a region and a zone taken from the rows in which both keys are present. Each cell
  holds the sums over the rows of its region and zone, which are zero where no row has
  both. As long as the counts of a column stay in the range in which the additions of
  the column's type are those of the whole numbers, the column sums over all cells to
  its total over the rows in which both keys are present. In a filtered frame in which
  no row lacks a key, the grid is the cross product of the regions and the zones of the
  frame and, in that range, the cells sum to the total of the frame.
\<close>

theorem pivot_dense_grid_sums:
  "distinct (map fst (pivot_cells (heatmap_data dtypes v)))
   \<and> set (map fst (pivot_cells (heatmap_data dtypes v))) =
       {r. \<exists>row\<in>set v. region_name row = Some r \<and> z_name row \<noteq> None}
       \<times> {z. \<exists>row\<in>set v. z_name row = Some z \<and> region_name row \<noteq> None}
   \<and> (\<forall>c\<in>set (pivot_cells (heatmap_data dtypes v)).
         snd c = agg_sum dtypes (filter (\<lambda>row. region_name row = Some (fst (fst c)) \<and>
                                               z_name row = Some (snd (fst c))) v))
   \<and> (\<forall>c\<in>set (pivot_cells (heatmap_data dtypes v)).
         (\<forall>row\<in>set v. \<not> (region_name row = Some (fst (fst c)) \<and>
                            z_name row = Some (snd (fst c))))
         \<longrightarrow> snd c = zero_sums)
   \<and> (in_range dtypes col v \<longrightarrow>
         sum_totals (map (\<lambda>c. sum_of col (snd c)) (pivot_cells (heatmap_data dtypes v))) =
           total_of dtypes col
             (filter (\<lambda>row. region_name row \<noteq> None \<and> z_name row \<noteq> None) v))
   \<and> ((\<forall>row\<in>set v. region_name row \<noteq> None \<and> z_name row \<noteq> None) \<longrightarrow>
         set (map fst (pivot_cells (heatmap_data dtypes v))) =
           {r. Some r \<in> region_name ` set v} \<times> {z. Some z \<in> z_name ` set v})
   \<and> (in_range dtypes col v \<and> (\<forall>row\<in>set v. region_name row \<noteq> None \<and> z_name row \<noteq> None) \<longrightarrow>
         sum_totals (map (\<lambda>c. sum_of col (snd c)) (pivot_cells (heatmap_data dtypes v))) =
           total_of dtypes col v)"
proof -
  let ?cells = "pivot_cells (heatmap_data dtypes v)"
  have d: "distinct (map fst ?cells)"
    unfolding pivot_cells_keys by (rule distinct_pivot_keys)
  have k: "set (map fst ?cells) =
       {r. \<exists>row\<in>set v. region_name row = Some r \<and> z_name row \<noteq> None}
       \<times> {z. \<exists>row\<in>set v. z_name row = Some z \<and> region_name row \<noteq> None}"
    unfolding pivot_cells_keys by (simp add: set_pivot_index set_pivot_columns)
  have c: "\<forall>c\<in>set ?cells.
         snd c = agg_sum dtypes (filter (\<lambda>row. region_name row = Some (fst (fst c)) \<and>
                                               z_name row = Some (snd (fst c))) v)"
    using pivot_cell_snd by blast
  have z: "\<forall>c\<in>set ?cells.
         (\<forall>row\<in>set v. \<not> (region_name row = Some (fst (fst c)) \<and>
                            z_name row = Some (snd (fst c))))
         \<longrightarrow> snd c = zero_sums"
  proof (intro ballI impI)
    fix c
    assume "c \<in> set ?cells"
      and none: "\<forall>row\<in>set v. \<not> (region_name row = Some (fst (fst c)) \<and>
                                   z_name row = Some (snd (fst c)))"
    from none have "filter (\<lambda>row. region_name row = Some (fst (fst c)) \<and>
                                 z_name row = Some (snd (fst c))) v = []"
      by (simp add: filter_empty_conv)
    with pivot_cell_snd [OF \<open>c \<in> set ?cells\<close>] show "snd c = zero_sums"
      by (simp add: agg_sum_Nil)
  qed
  have t: "sum_totals (map (\<lambda>c. sum_of col (snd c)) ?cells) =
       total_of dtypes col (filter (\<lambda>row. region_name row \<noteq> None \<and> z_name row \<noteq> None) v)"
    if "in_range dtypes col v"
    using that by (rule pivot_column)
  have full: "set (map fst ?cells) =
           {r. Some r \<in> region_name ` set v} \<times> {z. Some z \<in> z_name ` set v}"
    if h: "\<forall>row\<in>set v. region_name row \<noteq> None \<and> z_name row \<noteq> None"
    unfolding k all_keys_present(1) [OF h] all_keys_present(2) [OF h] ..
  have sums: "sum_totals (map (\<lambda>c. sum_of col (snd c)) ?cells) = total_of dtypes col v"
    if r: "in_range dtypes col v"
      and h: "\<forall>row\<in>set v. region_name row \<noteq> None \<and> z_name row \<noteq> None"
    using t [OF r] all_keys_present(3) [OF h] by simp
  from d k c z t full sums show ?thesis by blast
qed

theorem pivot_dense_grid_sums_witness:
  "in_range (dtypes_of example_table) Dtc example_table
   \<and> list_all (\<lambda>row. region_name row \<noteq> None \<and> z_name row \<noteq> None) example_table
   \<and> pivot_cells (heatmap_data (dtypes_of example_table) example_table) =
       [((''A'', ''X''),
         \<lparr>sum_substation = Value 2, sum_dtc = Value 1, sum_ht_pole = Value 0, sum_lt_pole = Value 0\<rparr>),
        ((''A'', ''Y''),
         \<lparr>sum_substation = Value 3, sum_dtc = Value 0, sum_ht_pole = Value 1, sum_lt_pole = Value 0\<rparr>),
        ((''B'', ''X''),
         \<lparr>sum_substation = Value 0, sum_dtc = Value 5, sum_ht_pole = Value 0, sum_lt_pole = Value 2\<rparr>),
        ((''B'', ''Y''),
         \<lparr>sum_substation = Value 0, sum_dtc = Value 0, sum_ht_pole = Value 0, sum_lt_pole = Value 0\<rparr>)]
   \<and> sum_totals (map (\<lambda>c. sum_dtc (snd c))
        (pivot_cells (heatmap_data (dtypes_of example_table) example_table))) =
       total_dtc (dtypes_of example_table) example_table
   \<and> total_dtc (dtypes_of example_table) example_table = Value 6"
proof -
  let ?dt = "dtypes_of example_table"
  have r: "in_range ?dt Dtc example_table"
    by (simp add: in_range_def magnitude_def exact_bound_def example_table_def
        example_row_def count_or_zero_def)
  have h: "\<forall>row\<in>set example_table. region_name row \<noteq> None \<and> z_name row \<noteq> None"
    by (simp add: example_table_def example_row_def)
  have cells: "pivot_cells (heatmap_data ?dt example_table) =
       [((''A'', ''X''),
         \<lparr>sum_substation = Value 2, sum_dtc = Value 1, sum_ht_pole = Value 0, sum_lt_pole = Value 0\<rparr>),
        ((''A'', ''Y''),
         \<lparr>sum_substation = Value 3, sum_dtc = Value 0, sum_ht_pole = Value 1, sum_lt_pole = Value 0\<rparr>),
        ((''B'', ''X''),
         \<lparr>sum_substation = Value 0, sum_dtc = Value 5, sum_ht_pole = Value 0, sum_lt_pole = Value 2\<rparr>),
        ((''B'', ''Y''),
         \<lparr>sum_substation = Value 0, sum_dtc = Value 0, sum_ht_pole = Value 0, sum_lt_pole = Value 0\<rparr>)]"
    by code_simp
  have t: "total_dtc ?dt example_table = Value 6"
    by (simp add: total_dtc_def series_sum_def dtypes_of_def has_na_def wrap64_def
        example_table_def example_row_def)
  from pivot_dense_grid_sums [of ?dt example_table Dtc] r h
  have "sum_totals (map (\<lambda>c. sum_of Dtc (snd c)) (pivot_cells (heatmap_data ?dt example_table))) =
          total_of ?dt Dtc example_table"
    by blast
  then have "sum_totals (map (\<lambda>c. sum_dtc (snd c)) (pivot_cells (heatmap_data ?dt example_table))) =
          total_dtc ?dt example_table"
    by simp
  with r h cells t show ?thesis
    by (simp only: list_all_iff)
qed

text \<open>
  The claim as it was stated fails on a table with a row whose zone is missing: the
  default selection keeps the row, its region \<open>B\<close> and the zone \<open>X\<close> of the other row are
  both values of the frame, the pivot table has no cell for the pair, and its cells sum
  to 1 substation where the total is 3.
\<close>

theorem pivot_counterexample:
  "filtered_data [sparse_row (Some ''A'') (Some ''X'') (Some 1), sparse_row (Some ''B'') None (Some 2)]
     (region_options [sparse_row (Some ''A'') (Some ''X'') (Some 1), sparse_row (Some ''B'') None (Some 2)])
     (zone_options [sparse_row (Some ''A'') (Some ''X'') (Some 1), sparse_row (Some ''B'') None (Some 2)])
   = [sparse_row (Some ''A'') (Some ''X'') (Some 1), sparse_row (Some ''B'') None (Some 2)]
   \<and> pivot_cells (heatmap_data
       (dtypes_of [sparse_row (Some ''A'') (Some ''X'') (Some 1), sparse_row (Some ''B'') None (Some 2)])
       [sparse_row (Some ''A'') (Some ''X'') (Some 1), sparse_row (Some ''B'') None (Some 2)])
     = [((''A'', ''X''),
         \<lparr>sum_substation = Value 1, sum_dtc = Value 0, sum_ht_pole = Value 0, sum_lt_pole = Value 0\<rparr>)]
   \<and> (''B'', ''X'') \<notin> set (map fst (pivot_cells (heatmap_data
       (dtypes_of [sparse_row (Some ''A'') (Some ''X'') (Some 1), sparse_row (Some ''B'') None (Some 2)])
       [sparse_row (Some ''A'') (Some ''X'') (Some 1), sparse_row (Some ''B'') None (Some 2)])))
   \<and> total_substation
       (dtypes_of [sparse_row (Some ''A'') (Some ''X'') (Some 1), sparse_row (Some ''B'') None (Some 2)])
       [sparse_row (Some ''A'') (Some ''X'') (Some 1), sparse_row (Some ''B'') None (Some 2)]
     = Value 3
   \<and> sum_totals (map (\<lambda>c. sum_substation (snd c)) (pivot_cells (heatmap_data
       (dtypes_of [sparse_row (Some ''A'') (Some ''X'') (Some 1), sparse_row (Some ''B'') None (Some 2)])
       [sparse_row (Some ''A'') (Some ''X'') (Some 1), sparse_row (Some ''B'') None (Some 2)])))
     = Value 1"
proof -
  let ?t = "[sparse_row (Some ''A'') (Some ''X'') (Some 1), sparse_row (Some ''B'') None (Some 2)]"
  have cells: "pivot_cells (heatmap_data (dtypes_of ?t) ?t) =
      [((''A'', ''X''),
        \<lparr>sum_substation = Value 1, sum_dtc = Value 0, sum_ht_pole = Value 0, sum_lt_pole = Value 0\<rparr>)]"
    by code_simp
  have total: "total_substation (dtypes_of ?t) ?t = Value 3"
    by (simp add: total_substation_def series_sum_def dtypes_of_def has_na_def wrap64_def
        sparse_row_def)
  show ?thesis
    unfolding cells total by (simp add: filtered_data_default_selection)
qed

subsection \<open>Missing counts\<close>













subsection \<open>Loading and the cache\<close>

lemma load_data_cached_hit:
  "cache w = Some data \<Longrightarrow> load_data_cached db w = (Inr data, w)"
  by (simp add: load_data_cached_def)

lemma load_data_Inr:
  assumes "load_data db w = (Inr data, w')"
  shows "db = Rows data" and "queries w' = Suc (queries w)" and "opened w' = Suc (opened w)"
    and "cache w' = cache w"
  using assms
  by (auto simp: load_data_def get_db_connection_def read_sql_def conn_close_def
      split: db_answer.splits)

lemma load_data_Inl:
  assumes "load_data db w = (Inl e, w')"
  shows "cache w' = cache w"
  using assms
  by (auto simp: load_data_def get_db_connection_def read_sql_def conn_close_def
      split: db_answer.splits)

lemma load_data_cached_Inr:
  assumes "load_data_cached db w = (Inr data, w')"
  shows "cache w' = Some data"
proof (cases "cache w")
  case None
  with assms show ?thesis
    by (auto simp: load_data_cached_def split: prod.splits sum.splits)
next
  case (Some stored)
  with assms show ?thesis by (simp add: load_data_cached_def)
qed

lemma load_data_cached_miss:
  assumes "cache w = None" and "load_data_cached db w = (Inr data, w')"
  shows "db = Rows data" and "queries w' = Suc (queries w)" and "opened w' = Suc (opened w)"
proof -
  from assms obtain w1 where l: "load_data db w = (Inr data, w1)"
    and w': "w' = w1\<lparr>cache := Some data\<rparr>"
    by (auto simp: load_data_cached_def split: prod.splits sum.splits)
  from load_data_Inr [OF l] w'
  show "db = Rows data" and "queries w' = Suc (queries w)" and "opened w' = Suc (opened w)"
    by simp_all
qed

lemma load_data_cached_Inl:
  assumes "load_data_cached db w = (Inl e, w')"
  shows "cache w' = None"
proof (cases "cache w")
  case None
  with assms obtain w1 where "load_data db w = (Inl e, w1)" and "w' = w1"
    by (auto simp: load_data_cached_def split: prod.splits sum.splits)
  with load_data_Inl None show ?thesis by simp
next
  case (Some stored)
  with assms show ?thesis by (simp add: load_data_cached_def)
qed

lemma reruns_stored:
  "cache w = Some data \<Longrightarrow> reruns dbs w = (replicate (length dbs) (Inr data), w)"
  by (induction dbs) (simp_all add: load_data_cached_hit)

text \<open>
  C7 (as amended). Once a call of the cached \<^verbatim>\<open>load_data\<close> has returned a table, the
  table is stored, and every later run of the process gets that table from any call,
  whatever the database would answer, and leaves the world as it is: no connection is
  opened and no query is run. A call that finds nothing stored and returns a table has
  run one query, whose rows are that table. A call that fails stores nothing.
\<close>

theorem cache_keeps_first_successful_load:
  "(load_data_cached db w = (Inr data, w') \<longrightarrow>
      cache w' = Some data
    \<and> load_data_cached db' w' = (Inr data, w')
    \<and> reruns dbs w' = (replicate (length dbs) (Inr data), w'))
   \<and> (cache w = None \<and> load_data_cached db w = (Inr data, w') \<longrightarrow>
      db = Rows data \<and> queries w' = Suc (queries w) \<and> opened w' = Suc (opened w))
   \<and> (load_data_cached db w = (Inl e, w') \<longrightarrow> cache w' = None)"
proof -
  have a: "cache w' = Some data
    \<and> load_data_cached db' w' = (Inr data, w')
    \<and> reruns dbs w' = (replicate (length dbs) (Inr data), w')"
    if "load_data_cached db w = (Inr data, w')"
    using load_data_cached_Inr [OF that]
    by (simp add: load_data_cached_hit reruns_stored)
  have b: "db = Rows data \<and> queries w' = Suc (queries w) \<and> opened w' = Suc (opened w)"
    if "cache w = None" and "load_data_cached db w = (Inr data, w')"
    using load_data_cached_miss [OF that] by simp
  have c: "cache w' = None" if "load_data_cached db w = (Inl e, w')"
    using load_data_cached_Inl [OF that] .
  from a b c show ?thesis by blast
qed

theorem cache_keeps_first_successful_load_witness:
  "load_data_cached (Rows example_table) process_start =
     (Inr example_table, \<lparr>opened = 1, open_conns = [], queries = 1, cache = Some example_table\<rparr>)
   \<and> reruns [Query_fails, Rows [], Refused]
       \<lparr>opened = 1, open_conns = [], queries = 1, cache = Some example_table\<rparr> =
     ([Inr example_table, Inr example_table, Inr example_table],
      \<lparr>opened = 1, open_conns = [], queries = 1, cache = Some example_table\<rparr>)"
proof -
  let ?w = "\<lparr>opened = 1, open_conns = [], queries = 1, cache = Some example_table\<rparr>"
  have first: "load_data_cached (Rows example_table) process_start = (Inr example_table, ?w)"
    by (simp add: load_data_cached_def load_data_def get_db_connection_def read_sql_def
        conn_close_def process_start_def)
  from cache_keeps_first_successful_load
    [of "Rows example_table" process_start example_table ?w Refused
        "[Query_fails, Rows [], Refused]"] first
  have "reruns [Query_fails, Rows [], Refused] ?w =
          (replicate (length [Query_fails, Rows [], Refused]) (Inr example_table), ?w)"
    by blast
  with first show ?thesis by (simp add: numeral_3_eq_3)
qed

text \<open>
  The claim as it was stated fails when the first load fails: the second run of the
  script loads again, so that the process has opened two connections and run two
  queries, and the table of the process is the one of the second load.
\<close>

theorem cache_counterexample:
  "reruns [Query_fails, Rows example_table] process_start =
     ([Inl QueryError, Inr example_table],
      \<lparr>opened = 2, open_conns = [0], queries = 2, cache = Some example_table\<rparr>)"
  by (simp add: load_data_cached_def load_data_def get_db_connection_def read_sql_def
      conn_close_def process_start_def)

text \<open>
  C8. The claim is that the connection is closed before \<^verbatim>\<open>load_data\<close> is left, also
  when the query fails. The script closes it after a query that succeeds; when
  \<^verbatim>\<open>pd.read_sql\<close> raises, line 59 is not reached and the connection stays open.
\<close>

theorem load_data_leaves_connection_open:
  "load_data (Rows example_table) process_start =
     (Inr example_table, \<lparr>opened = 1, open_conns = [], queries = 1, cache = None\<rparr>)
   \<and> load_data Query_fails process_start =
     (Inl QueryError, \<lparr>opened = 1, open_conns = [0], queries = 1, cache = None\<rparr>)
   \<and> opened w \<notin> set (open_conns (snd (load_data (Rows table) w)))
   \<and> opened w \<in> set (open_conns (snd (load_data Query_fails w)))"
  by (simp add: load_data_def get_db_connection_def read_sql_def conn_close_def
      process_start_def)

subsection \<open>The CSV export and its reader\<close>

declare decimal.simps [simp del]

lemma of_char_digit_char: "d < 10 \<Longrightarrow> (of_char (digit_char d) :: nat) = 48 + d"
  by (simp add: digit_char_def)

lemma read_digits_append:
  "read_digits acc (xs @ ys) =
     (case read_digits acc xs of None \<Rightarrow> None | Some m \<Rightarrow> read_digits m ys)"
  by (induction xs arbitrary: acc) simp_all

lemma read_digits_decimal: "read_digits 0 (decimal n) = Some n"
proof (induction n rule: decimal.induct)
  case (1 n)
  show ?case
  proof (cases "n < 10")
    case True
    then show ?thesis
      by (subst decimal.simps) (simp add: of_char_digit_char)
  next
    case False
    have "n mod 10 < 10" by simp
    with False "1.IH" show ?thesis
      by (subst decimal.simps) (simp add: read_digits_append of_char_digit_char)
  qed
qed

lemma decimal_digits: "c \<in> set (decimal n) \<Longrightarrow> 48 \<le> (of_char c :: nat)"
proof (induction n rule: decimal.induct)
  case (1 n)
  show ?case
  proof (cases "n < 10")
    case True
    with "1.prems" show ?thesis
      by (subst (asm) decimal.simps) (simp add: of_char_digit_char)
  next
    case False
    have "n mod 10 < 10" by simp
    with False "1.prems" "1.IH" show ?thesis
      by (subst (asm) decimal.simps) (auto simp: of_char_digit_char)
  qed
qed

lemma decimal_not_Nil: "decimal n \<noteq> []"
  by (subst decimal.simps) simp

lemma read_int_show_int: "read_int (show_int i) = Some i"
proof (cases "i < 0")
  case True
  then show ?thesis
    by (simp add: show_int_def read_int_def decimal_not_Nil read_digits_decimal)
next
  case False
  obtain c cs where d: "decimal (nat i) = c # cs"
    using decimal_not_Nil [of "nat i"] by (cases "decimal (nat i)") auto
  then have "48 \<le> (of_char c :: nat)"
    using decimal_digits [of c "nat i"] by simp
  then have "c \<noteq> CHR ''-''" by auto
  with False d read_digits_decimal [of "nat i"] show ?thesis
    by (simp add: show_int_def read_int_def)
qed

lemma separators_distinct:
  "comma \<noteq> dquote" "comma \<noteq> linefeed" "dquote \<noteq> linefeed"
  "dquote \<noteq> comma" "linefeed \<noteq> comma" "linefeed \<noteq> dquote"
  by (simp_all add: comma_def dquote_def linefeed_def)

lemma read_plain:
  assumes "\<forall>c\<in>set s. c \<noteq> comma \<and> c \<noteq> linefeed"
  shows "read_records Plain cur cells records (s @ rest) =
         read_records Plain (cur @ s) cells records rest"
  using assms by (induction s arbitrary: cur) simp_all

lemma read_quoted:
  "read_records Quoted cur cells records (escape_quotes s @ dquote # rest) =
   read_records Quote_in_quoted (cur @ s) cells records rest"
proof (induction s arbitrary: cur)
  case Nil
  show ?case by (simp add: escape_quotes_def)
next
  case (Cons c s)
  have step: "escape_quotes (c # s) = (if c = dquote then [dquote, dquote] else [c]) @ escape_quotes s"
    by (simp add: escape_quotes_def)
  show ?case
    unfolding step using Cons [of "cur @ [c]"] by (cases "c = dquote") simp_all
qed

lemma read_unquoted_start:
  assumes "\<forall>c\<in>set s. c \<noteq> comma \<and> c \<noteq> linefeed \<and> c \<noteq> dquote"
  shows "read_records Field_start [] cells records (s @ comma # rest) =
           read_records Field_start [] (cells @ [s]) records rest"
    and "read_records Field_start [] cells records (s @ linefeed # rest) =
           read_records Field_start [] [] (records @ [cells @ [s]]) rest"
proof -
  show "read_records Field_start [] cells records (s @ comma # rest) =
           read_records Field_start [] (cells @ [s]) records rest"
  proof (cases s)
    case Nil
    then show ?thesis by (simp add: separators_distinct)
  next
    case (Cons c s')
    with assms have "\<forall>c\<in>set s'. c \<noteq> comma \<and> c \<noteq> linefeed" by simp
    from read_plain [OF this, of "[c]" cells records "comma # rest"] Cons assms
    show ?thesis by simp
  qed
  show "read_records Field_start [] cells records (s @ linefeed # rest) =
           read_records Field_start [] [] (records @ [cells @ [s]]) rest"
  proof (cases s)
    case Nil
    then show ?thesis by (simp add: separators_distinct)
  next
    case (Cons c s')
    with assms have "\<forall>c\<in>set s'. c \<noteq> comma \<and> c \<noteq> linefeed" by simp
    from read_plain [OF this, of "[c]" cells records "linefeed # rest"] Cons assms
    show ?thesis by (simp add: separators_distinct)
  qed
qed

lemma read_quote_field:
  "read_records Field_start [] cells records (quote_field also_quoted s @ comma # rest) =
     read_records Field_start [] (cells @ [s]) records rest"
  "read_records Field_start [] cells records (quote_field also_quoted s @ linefeed # rest) =
     read_records Field_start [] [] (records @ [cells @ [s]]) rest"
proof -
  let ?special = "list_ex (\<lambda>c. c \<in> set ([comma, dquote, linefeed] @ also_quoted)) s"
  have plain: "\<forall>c\<in>set s. c \<noteq> comma \<and> c \<noteq> linefeed \<and> c \<noteq> dquote" if "\<not> ?special"
    using that by (auto simp: list_ex_iff)
  show "read_records Field_start [] cells records (quote_field also_quoted s @ comma # rest) =
     read_records Field_start [] (cells @ [s]) records rest"
  proof (cases ?special)
    case True
    then show ?thesis
      using read_quoted [of "[]" cells records s "comma # rest"]
      by (simp add: quote_field_def separators_distinct)
  next
    case False
    then show ?thesis
      using read_unquoted_start(1) [OF plain [OF False]]
      by (simp add: quote_field_def)
  qed
  show "read_records Field_start [] cells records (quote_field also_quoted s @ linefeed # rest) =
     read_records Field_start [] [] (records @ [cells @ [s]]) rest"
  proof (cases ?special)
    case True
    then show ?thesis
      using read_quoted [of "[]" cells records s "linefeed # rest"]
      by (simp add: quote_field_def separators_distinct)
  next
    case False
    then show ?thesis
      using read_unquoted_start(2) [OF plain [OF False]]
      by (simp add: quote_field_def)
  qed
qed

lemma read_writerow:
  "row \<noteq> [] \<Longrightarrow>
   read_records Field_start [] cells records (writerow also_quoted row @ rest) =
   read_records Field_start [] [] (records @ [cells @ row]) rest"
proof (induction also_quoted row arbitrary: cells rule: writerow.induct)
  case (1 also_quoted)
  then show ?case by simp
next
  case (2 also_quoted f)
  show ?case
  proof (cases "f = []")
    case True
    then show ?thesis by (simp add: separators_distinct)
  next
    case False
    then show ?thesis by (simp add: read_quote_field(2))
  qed
next
  case (3 also_quoted f g fs)
  from "3.IH" [of "cells @ [f]"] show ?case
    by (simp add: read_quote_field(1))
qed

lemma read_written_rows:
  "\<forall>row\<in>set rows. row \<noteq> [] \<Longrightarrow>
   read_records Field_start [] [] records (concat (map (writerow also_quoted) rows)) =
   Some (records @ rows)"
proof (induction rows arbitrary: records)
  case Nil
  show ?case by simp
next
  case (Cons row rows)
  then have "row \<noteq> []" and rest: "\<forall>row\<in>set rows. row \<noteq> []" by simp_all
  from read_writerow [OF \<open>row \<noteq> []\<close>, of "[]" records also_quoted
      "concat (map (writerow also_quoted) rows)"]
    Cons.IH [OF rest, of "records @ [row]"]
  show ?case by simp
qed

lemma read_records_lines:
  assumes "\<forall>cells\<in>set lines. cells \<noteq> []"
  shows "read_records Field_start [] [] []
           (writerow also_quoted column_names @ concat (map (writerow also_quoted) lines)) =
         Some (column_names # lines)"
proof -
  have "\<forall>cells\<in>set (column_names # lines). cells \<noteq> []"
    using assms by (simp add: column_names_def)
  from read_written_rows [OF this, of "[]" also_quoted] show ?thesis
    by simp
qed

lemma dot_not_in_show_int: "CHR ''.'' \<notin> set (show_int n)"
  by (auto simp: show_int_def dest: decimal_digits)

lemma read_count_show_int: "read_count (show_int n) = Some n"
proof -
  have "drop (length (show_int n) - 2) (show_int n) \<noteq> ''.0''"
  proof
    assume "drop (length (show_int n) - 2) (show_int n) = ''.0''"
    then have "CHR ''.'' \<in> set (drop (length (show_int n) - 2) (show_int n))"
      by simp
    then have "CHR ''.'' \<in> set (show_int n)"
      by (rule in_set_dropD)
    with dot_not_in_show_int show False by blast
  qed
  then show ?thesis
    by (simp add: read_count_def read_int_show_int)
qed

lemma read_count_float: "read_count (show_int n @ ''.0'') = Some n"
  by (simp add: read_count_def read_int_show_int)

lemma count_cell_read:
  assumes "floating \<longrightarrow> \<bar>n\<bar> < 10 ^ 16"
  shows "\<exists>t. count_cell floating (Some n) = Some t \<and> read_count t = Some n"
  using assms
  by (cases floating) (simp_all add: count_cell_def read_count_show_int read_count_float)

lemma row_cells_read:
  assumes row: "complete row" and plain: "plain_floats dtypes row"
  shows "\<exists>cells. row_cells dtypes row = Some cells \<and> cells \<noteq> [] \<and> read_row cells = Some row"
proof -
  from row obtain r z c s d h l where cells:
    "region_name row = Some r" "z_name row = Some z" "c_name row = Some c"
    "substation row = Some s" "dtc row = Some d" "ht_pole row = Some h" "lt_pole row = Some l"
    by (auto simp: complete_def)
  then have eq: "row = \<lparr>region_name = Some r, z_name = Some z, c_name = Some c,
                     substation = Some s, dtc = Some d, ht_pole = Some h, lt_pole = Some l\<rparr>"
    by (cases row) simp
  from plain cells have
    "float_substation dtypes \<longrightarrow> \<bar>s\<bar> < 10 ^ 16" "float_dtc dtypes \<longrightarrow> \<bar>d\<bar> < 10 ^ 16"
    "float_ht_pole dtypes \<longrightarrow> \<bar>h\<bar> < 10 ^ 16" "float_lt_pole dtypes \<longrightarrow> \<bar>l\<bar> < 10 ^ 16"
    by (simp_all add: plain_floats_def count_or_zero_def)
  then obtain ts td th tl where texts:
    "count_cell (float_substation dtypes) (Some s) = Some ts" "read_count ts = Some s"
    "count_cell (float_dtc dtypes) (Some d) = Some td" "read_count td = Some d"
    "count_cell (float_ht_pole dtypes) (Some h) = Some th" "read_count th = Some h"
    "count_cell (float_lt_pole dtypes) (Some l) = Some tl" "read_count tl = Some l"
    using count_cell_read [of "float_substation dtypes" s]
      count_cell_read [of "float_dtc dtypes" d]
      count_cell_read [of "float_ht_pole dtypes" h]
      count_cell_read [of "float_lt_pole dtypes" l]
    by blast
  have "row_cells dtypes row = Some [r, z, c, ts, td, th, tl]"
    by (simp add: row_cells_def cells texts text_cell_def)
  moreover have "read_row [r, z, c, ts, td, th, tl] = Some row"
    by (simp add: read_row_def texts eq)
  ultimately show ?thesis by simp
qed

lemma those_row_cells:
  assumes "\<forall>row\<in>set v. complete row \<and> plain_floats dtypes row"
  shows "\<exists>lines. those (map (row_cells dtypes) v) = Some lines
           \<and> (\<forall>cells\<in>set lines. cells \<noteq> [])
           \<and> those (map read_row lines) = Some v"
  using assms
proof (induction v)
  case Nil
  show ?case by simp
next
  case (Cons row v)
  then obtain lines where lines: "those (map (row_cells dtypes) v) = Some lines"
    "\<forall>cells\<in>set lines. cells \<noteq> []" "those (map read_row lines) = Some v"
    by auto
  from Cons.prems obtain cells where cells: "row_cells dtypes row = Some cells"
    "cells \<noteq> []" "read_row cells = Some row"
    using row_cells_read [of row dtypes] by auto
  have "those (map (row_cells dtypes) (row # v)) = Some (cells # lines)"
    by (simp add: cells lines)
  moreover have "\<forall>cells\<in>set (cells # lines). cells \<noteq> []"
    using cells lines by simp
  moreover have "those (map read_row (cells # lines)) = Some (row # v)"
    by (simp add: cells lines)
  ultimately show ?case by blast
qed

lemma read_csv_to_csv:
  assumes "\<forall>row\<in>set v. complete row \<and> plain_floats dtypes row"
  shows "\<exists>text. to_csv also_quoted dtypes v = Some text \<and> read_csv text = Some v"
proof -
  from those_row_cells [OF assms] obtain lines where
    lines: "those (map (row_cells dtypes) v) = Some lines"
    and nonempty: "\<forall>cells\<in>set lines. cells \<noteq> []"
    and readback: "those (map read_row lines) = Some v"
    by blast
  let ?text = "writerow also_quoted column_names @ concat (map (writerow also_quoted) lines)"
  have "to_csv also_quoted dtypes v = Some ?text"
    by (simp add: to_csv_def lines)
  moreover have "read_csv ?text = Some v"
    by (simp add: read_csv_def read_records_lines [OF nonempty] readback)
  ultimately show ?thesis by blast
qed

text \<open>
  C6 (as amended). For a filtered frame without a missing cell there is an exported
  text, and reading it gives back the frame: the same rows in the same order, every
  text cell with the same characters (also those that hold commas, quote characters or
  line breaks) and every count with the same integer value, whether its column is
  written as integers or, being \<^verbatim>\<open>float64\<close> because the loaded table misses a count in
  it, with the fractional part \<^verbatim>\<open>.0\<close> (for counts below \<open>10\<^sup>1\<^sup>6\<close> in magnitude). This holds
  whichever further characters the writer chooses to quote.
\<close>

theorem csv_round_trip:
  assumes "\<forall>row\<in>set v. complete row \<and> plain_floats dtypes row"
  shows "\<exists>text. csv also_quoted dtypes v = Some text \<and> read_csv text = Some v"
  unfolding csv_def using assms by (rule read_csv_to_csv)

theorem csv_round_trip_witness:
  "filtered_data
     [circle_row (Some [CHR ''a'', comma, dquote, linefeed]),
      sparse_row (Some ''B'') (Some ''Y'') None]
     [Some ''A''] [Some ''X'']
   = [circle_row (Some [CHR ''a'', comma, dquote, linefeed])]
   \<and> float_substation (dtypes_of
       [circle_row (Some [CHR ''a'', comma, dquote, linefeed]),
        sparse_row (Some ''B'') (Some ''Y'') None]) = True
   \<and> list_all (\<lambda>row. complete row \<and>
        plain_floats (dtypes_of
          [circle_row (Some [CHR ''a'', comma, dquote, linefeed]),
           sparse_row (Some ''B'') (Some ''Y'') None]) row)
       [circle_row (Some [CHR ''a'', comma, dquote, linefeed])]
   \<and> Option.bind
       (csv []
         (dtypes_of
           [circle_row (Some [CHR ''a'', comma, dquote, linefeed]),
            sparse_row (Some ''B'') (Some ''Y'') None])
         [circle_row (Some [CHR ''a'', comma, dquote, linefeed])])
       read_csv
     = Some [circle_row (Some [CHR ''a'', comma, dquote, linefeed])]
   \<and> csv []
       (dtypes_of [count_row (Some 3) (Some 0), sparse_row (Some ''B'') (Some ''Y'') None])
       (filtered_data [count_row (Some 3) (Some 0), sparse_row (Some ''B'') (Some ''Y'') None]
          [Some ''A''] [Some ''X''])
     = Some ''region_name,z_name,c_name,substation,dtc,ht_pole,lt_pole\<newline>A,X,c,3.0,0,0,0\<newline>''"
proof -
  let ?data = "[circle_row (Some [CHR ''a'', comma, dquote, linefeed]),
      sparse_row (Some ''B'') (Some ''Y'') None]"
  let ?v = "[circle_row (Some [CHR ''a'', comma, dquote, linefeed])]"
  have f: "filtered_data ?data [Some ''A''] [Some ''X''] = ?v"
    by (simp add: filtered_data_filter circle_row_def sparse_row_def)
  have t: "float_substation (dtypes_of ?data) = True"
    by (simp add: dtypes_of_def has_na_def circle_row_def sparse_row_def)
  have h: "\<forall>row\<in>set ?v. complete row \<and> plain_floats (dtypes_of ?data) row"
    by (simp add: complete_def plain_floats_def circle_row_def count_or_zero_def)
  from csv_round_trip [OF h, of "[]"]
  have b: "Option.bind (csv [] (dtypes_of ?data) ?v) read_csv = Some ?v"
    by auto
  have c: "csv []
       (dtypes_of [count_row (Some 3) (Some 0), sparse_row (Some ''B'') (Some ''Y'') None])
       (filtered_data [count_row (Some 3) (Some 0), sparse_row (Some ''B'') (Some ''Y'') None]
          [Some ''A''] [Some ''X''])
     = Some ''region_name,z_name,c_name,substation,dtc,ht_pole,lt_pole\<newline>A,X,c,3.0,0,0,0\<newline>''"
    by code_simp
  from f t h b c show ?thesis
    by (simp only: list_all_iff)
qed

text \<open>
  The claim as it was stated fails on a frame with a missing text cell: the export
  writes a missing circle and an empty circle as the same text, so that no reader can
  give back both frames, and the reader above gives back the empty circle.
\<close>

theorem csv_counterexample:
  "filtered_data [circle_row None] [Some ''A''] [Some ''X''] = [circle_row None]
   \<and> [circle_row None] \<noteq> [circle_row (Some [])]
   \<and> dtypes_of [circle_row None] = dtypes_of [circle_row (Some [])]
   \<and> csv [] (dtypes_of [circle_row None]) [circle_row None] =
       csv [] (dtypes_of [circle_row (Some [])]) [circle_row (Some [])]
   \<and> csv [CHR 0x0D] (dtypes_of [circle_row None]) [circle_row None] =
       csv [CHR 0x0D] (dtypes_of [circle_row (Some [])]) [circle_row (Some [])]
   \<and> csv [] (dtypes_of [circle_row None]) [circle_row None] =
       Some ''region_name,z_name,c_name,substation,dtc,ht_pole,lt_pole\<newline>A,X,,1,0,0,0\<newline>''
   \<and> read_csv ''region_name,z_name,c_name,substation,dtc,ht_pole,lt_pole\<newline>A,X,,1,0,0,0\<newline>''
       = Some [circle_row (Some [])]"
proof -
  have f: "filtered_data [circle_row None] [Some ''A''] [Some ''X''] = [circle_row None]"
    by (simp add: filtered_data_filter circle_row_def)
  have n: "[circle_row None] \<noteq> [circle_row (Some [])]"
    by (simp add: circle_row_def)
  have d: "dtypes_of [circle_row None] = dtypes_of [circle_row (Some [])]"
    by (simp add: dtypes_of_def has_na_def circle_row_def)
  have e: "csv also_quoted (dtypes_of [circle_row None]) [circle_row None] =
           csv also_quoted (dtypes_of [circle_row (Some [])]) [circle_row (Some [])]"
    for also_quoted
    by (simp add: csv_def to_csv_def row_cells_def count_cell_def dtypes_of_def has_na_def
        circle_row_def text_cell_def)
  have t: "csv [] (dtypes_of [circle_row None]) [circle_row None] =
      Some ''region_name,z_name,c_name,substation,dtc,ht_pole,lt_pole\<newline>A,X,,1,0,0,0\<newline>''"
    by code_simp
  have r: "read_csv ''region_name,z_name,c_name,substation,dtc,ht_pole,lt_pole\<newline>A,X,,1,0,0,0\<newline>''
       = Some [circle_row (Some [])]"
    by code_simp
  from f n d e [of "[]"] e [of "[CHR 0x0D]"] t r show ?thesis
    by (intro conjI)
qed

end
